theory Spec2Isabelle
  imports Complex_Main "HOL-Library.Word"
begin

section \<open>JavaScript strings\<close>

text \<open>
  A JavaScript string is a sequence of UTF-16 code units; a code unit is modelled as a
  natural number. \<open>js\<close> turns an ASCII literal into such a sequence.
\<close>

type_synonym jsstring = "nat list"

definition js :: "string \<Rightarrow> jsstring" where
  "js s = map of_char s"

text \<open>
  The characters that \<open>\s\<close>, \<open>trim\<close>, \<open>trimStart\<close> and \<open>trimEnd\<close> treat as white space
  (ECMAScript WhiteSpace and LineTerminator).
\<close>

definition isSpace :: "nat \<Rightarrow> bool" where
  "isSpace c \<longleftrightarrow>
     c \<in> set [9, 10, 11, 12, 13, 32, 160, 5760, 8232, 8233, 8239, 8287, 12288, 65279]
     \<or> (8192 \<le> c \<and> c \<le> 8202)"

definition isLineTerminator :: "nat \<Rightarrow> bool" where
  "isLineTerminator c \<longleftrightarrow> c \<in> set [10, 13, 8232, 8233]"

definition trimStart :: "jsstring \<Rightarrow> jsstring" where
  "trimStart s = dropWhile isSpace s"

definition trimEnd :: "jsstring \<Rightarrow> jsstring" where
  "trimEnd s = rev (dropWhile isSpace (rev s))"

definition trim :: "jsstring \<Rightarrow> jsstring" where
  "trim s = trimStart (trimEnd s)"

text \<open>\<open>Array.prototype.join\<close> on an array of strings.\<close>

fun join :: "jsstring \<Rightarrow> jsstring list \<Rightarrow> jsstring" where
  "join sep [] = []"
| "join sep [x] = x"
| "join sep (x # y # ys) = x @ sep @ join sep (y # ys)"

text \<open>\<open>String.prototype.split\<close> with a one-character separator.\<close>

fun split_chr :: "nat \<Rightarrow> jsstring \<Rightarrow> jsstring list" where
  "split_chr d [] = [[]]"
| "split_chr d (c # cs) =
     (if c = d then [] # split_chr d cs
      else (case split_chr d cs of
              [] \<Rightarrow> [[c]]
            | w # ws \<Rightarrow> (c # w) # ws))"

section \<open>Regular expressions\<close>

text \<open>
  The regular expressions of the sources are values of \<open>regex\<close>; \<open>run\<close> is the
  backtracking matcher of ECMAScript written as a list of successes: the states where a
  match of the expression starting in the given state can end, in the order in which
  backtracking tries them. The head of the list is the match JavaScript reports.
\<close>

datatype citem = CChr nat | CRange nat nat | CSpace | CNonSpace

fun citem_has :: "citem \<Rightarrow> nat \<Rightarrow> bool" where
  "citem_has (CChr d) c \<longleftrightarrow> c = d"
| "citem_has (CRange a b) c \<longleftrightarrow> a \<le> c \<and> c \<le> b"
| "citem_has CSpace c \<longleftrightarrow> isSpace c"
| "citem_has CNonSpace c \<longleftrightarrow> \<not> isSpace c"

datatype regex =
    Eps
  | Chr nat
  | Dot
  | Cls bool "citem list"
  | Bol
  | Eol
  | Seq regex regex
  | Alt regex regex
  | Rep nat "nat option" bool regex
  | Grp nat regex

text \<open>
  \<open>Cls neg items\<close> is a character class, negated when \<open>neg\<close> holds.
  \<open>Rep mn mx greedy r\<close> is \<open>r{mn,mx}\<close> (\<open>mx = None\<close>: unbounded), lazy when
  \<open>greedy\<close> is false. \<open>Grp k r\<close> is the capturing group number \<open>k\<close>.
\<close>

record mstate =
  mpos :: nat
  mrest :: jsstring
  mcaps :: "(nat \<times> nat \<times> nat) list"

text \<open>
  Canonicalisation under the \<open>i\<close> flag. Every literal character of the patterns that
  carry the flag is ASCII, and a code unit above 127 never canonicalises to an ASCII one,
  so folding the ASCII letters decides every comparison these patterns make.
\<close>

definition canon :: "nat \<Rightarrow> nat" where
  "canon c = (if 97 \<le> c \<and> c \<le> 122 then c - 32 else c)"

definition adv :: "mstate \<Rightarrow> mstate" where
  "adv st = st\<lparr>mpos := Suc (mpos st), mrest := tl (mrest st)\<rparr>"

definition step_if :: "(nat \<Rightarrow> bool) \<Rightarrow> mstate \<Rightarrow> mstate list" where
  "step_if p st = (case mrest st of [] \<Rightarrow> [] | c # cs \<Rightarrow> if p c then [adv st] else [])"

text \<open>
  The repetition matcher. An iteration that consumes nothing is rejected once the minimum
  is reached, as in ECMAScript; the first argument bounds the number of iterations and
  is set by \<open>run\<close> to more than the input allows.
\<close>

fun rep :: "nat \<Rightarrow> nat \<Rightarrow> nat option \<Rightarrow> bool \<Rightarrow> (mstate \<Rightarrow> mstate list) \<Rightarrow> mstate \<Rightarrow> mstate list" where
  "rep 0 mn mx g f st = (if mn = 0 then [st] else [])"
| "rep (Suc k) mn mx g f st =
     (if mx = Some 0 then [st]
      else let more = concat (map (rep k (mn - 1) (map_option (\<lambda>m. m - 1) mx) g f)
                     (filter (\<lambda>st'. 0 < mn \<or> length (mrest st') < length (mrest st)) (f st)))
           in if 0 < mn then more else if g then more @ [st] else st # more)"

primrec run :: "regex \<Rightarrow> bool \<Rightarrow> mstate \<Rightarrow> mstate list" where
  "run Eps ic st = [st]"
| "run (Chr d) ic st = step_if (\<lambda>c. if ic then canon c = canon d else c = d) st"
| "run Dot ic st = step_if (\<lambda>c. \<not> isLineTerminator c) st"
| "run (Cls neg items) ic st = step_if (\<lambda>c. list_ex (\<lambda>i. citem_has i c) items \<noteq> neg) st"
| "run Bol ic st = (if mpos st = 0 then [st] else [])"
| "run Eol ic st = (if mrest st = [] then [st] else [])"
| "run (Seq a b) ic st = concat (map (run b ic) (run a ic st))"
| "run (Alt a b) ic st = run a ic st @ run b ic st"
| "run (Rep mn mx g r) ic st = rep (Suc (length (mrest st) + mn)) mn mx g (run r ic) st"
| "run (Grp k r) ic st =
     map (\<lambda>st'. st'\<lparr>mcaps := (k, mpos st, mpos st') # mcaps st'\<rparr>) (run r ic st)"

text \<open>
  \<open>search r ic p rest\<close> is \<open>RegExp.prototype.exec\<close> without the sticky flag: the
  first position at or after \<open>p\<close> where the expression matches, with the end state of
  the match; \<open>rest\<close> is the input from \<open>p\<close> on.
\<close>

fun search :: "regex \<Rightarrow> bool \<Rightarrow> nat \<Rightarrow> jsstring \<Rightarrow> (nat \<times> mstate) option" where
  "search r ic p [] =
     (case run r ic \<lparr>mpos = p, mrest = [], mcaps = []\<rparr> of
        st # _ \<Rightarrow> Some (p, st)
      | [] \<Rightarrow> None)"
| "search r ic p (c # cs) =
     (case run r ic \<lparr>mpos = p, mrest = c # cs, mcaps = []\<rparr> of
        st # _ \<Rightarrow> Some (p, st)
      | [] \<Rightarrow> search r ic (Suc p) cs)"

definition exec :: "regex \<Rightarrow> bool \<Rightarrow> jsstring \<Rightarrow> (nat \<times> mstate) option" where
  "exec r ic s = search r ic 0 s"

definition test :: "regex \<Rightarrow> bool \<Rightarrow> jsstring \<Rightarrow> bool" where
  "test r ic s \<longleftrightarrow> exec r ic s \<noteq> None"

text \<open>The text of capturing group \<open>k\<close> of a match (the empty string when it took no part).\<close>

definition capture :: "jsstring \<Rightarrow> mstate \<Rightarrow> nat \<Rightarrow> jsstring" where
  "capture s st k =
     (case map_of (mcaps st) k of
        None \<Rightarrow> []
      | Some (a, b) \<Rightarrow> take (b - a) (drop a s))"

text \<open>Constructors for the notation of the sources.\<close>

definition lit :: "string \<Rightarrow> regex" where
  "lit s = foldr (\<lambda>c r. Seq (Chr (of_char c)) r) s Eps"

definition seqs :: "regex list \<Rightarrow> regex" where
  "seqs rs = foldr Seq rs Eps"

definition alts :: "regex list \<Rightarrow> regex" where
  "alts rs = foldr Alt (butlast rs) (last rs)"

definition rstar :: "regex \<Rightarrow> regex" where
  "rstar r = Rep 0 None True r"

definition rplus :: "regex \<Rightarrow> regex" where
  "rplus r = Rep 1 None True r"

definition ropt :: "regex \<Rightarrow> regex" where
  "ropt r = Rep 0 (Some 1) True r"

definition rstar_lazy :: "regex \<Rightarrow> regex" where
  "rstar_lazy r = Rep 0 None False r"

definition rplus_lazy :: "regex \<Rightarrow> regex" where
  "rplus_lazy r = Rep 1 None False r"

definition at_least :: "nat \<Rightarrow> regex \<Rightarrow> regex" where
  "at_least n r = Rep n None True r"

definition space :: regex where
  "space = Cls False [CSpace]"

definition anything :: regex where
  "anything = Cls False [CSpace, CNonSpace]"

definition one_of :: "string \<Rightarrow> regex" where
  "one_of s = Cls False (map (\<lambda>c. CChr (of_char c)) s)"

definition none_of :: "string \<Rightarrow> regex" where
  "none_of s = Cls True (map (\<lambda>c. CChr (of_char c)) s)"

text \<open>
  The matches a regular expression with the \<open>g\<close> flag finds from left to right
  (\<open>matchAll\<close>, \<open>replace\<close>): the search resumes where the last match ended, one
  character further after an empty match. The first argument bounds the number of
  matches.
\<close>

fun all_matches :: "nat \<Rightarrow> regex \<Rightarrow> bool \<Rightarrow> nat \<Rightarrow> jsstring \<Rightarrow> (nat \<times> mstate) list" where
  "all_matches 0 r ic p rest = []"
| "all_matches (Suc k) r ic p rest =
     (case search r ic p rest of
        None \<Rightarrow> []
      | Some (i, st) \<Rightarrow>
          (i, st) #
          (if mpos st = i
           then (case drop (i - p) rest of
                   [] \<Rightarrow> []
                 | c # cs \<Rightarrow> all_matches k r ic (Suc i) cs)
           else all_matches k r ic (mpos st) (mrest st)))"

definition matchAll :: "regex \<Rightarrow> bool \<Rightarrow> jsstring \<Rightarrow> (nat \<times> mstate) list" where
  "matchAll r ic s = all_matches (Suc (Suc (length s))) r ic 0 s"

text \<open>\<open>remove_ranges p rest ms\<close> deletes the ranges \<open>ms\<close> from the input, of which
  \<open>rest\<close> is the part from position \<open>p\<close> on.\<close>

fun remove_ranges :: "nat \<Rightarrow> jsstring \<Rightarrow> (nat \<times> nat) list \<Rightarrow> jsstring" where
  "remove_ranges p rest [] = rest"
| "remove_ranges p rest ((a, b) # ms) = take (a - p) rest @ remove_ranges b (drop (b - p) rest) ms"

text \<open>\<open>s.replace(r, '')\<close> without and with the \<open>g\<close> flag.\<close>

definition replace_first :: "regex \<Rightarrow> bool \<Rightarrow> jsstring \<Rightarrow> jsstring" where
  "replace_first r ic s =
     (case exec r ic s of None \<Rightarrow> s | Some (i, st) \<Rightarrow> take i s @ drop (mpos st) s)"

definition replace_all :: "regex \<Rightarrow> bool \<Rightarrow> jsstring \<Rightarrow> jsstring" where
  "replace_all r ic s = remove_ranges 0 s (map (\<lambda>(i, st). (i, mpos st)) (matchAll r ic s))"

text \<open>
  \<open>s.split(r)\<close> for a regular expression without capturing groups: \<open>p\<close> is the start
  of the current piece, \<open>q\<close> the position where a separator is tried, which must match
  right there and end after \<open>p\<close>.
\<close>

fun split_loop :: "nat \<Rightarrow> regex \<Rightarrow> bool \<Rightarrow> jsstring \<Rightarrow> nat \<Rightarrow> nat \<Rightarrow> jsstring list" where
  "split_loop 0 r ic s p q = [drop p s]"
| "split_loop (Suc k) r ic s p q =
     (if length s \<le> q then [drop p s]
      else (case run r ic \<lparr>mpos = q, mrest = drop q s, mcaps = []\<rparr> of
              [] \<Rightarrow> split_loop k r ic s p (Suc q)
            | st # _ \<Rightarrow>
                if mpos st = p then split_loop k r ic s p (Suc q)
                else take (q - p) (drop p s) # split_loop k r ic s (mpos st) (mpos st)))"

definition split_re :: "regex \<Rightarrow> bool \<Rightarrow> jsstring \<Rightarrow> jsstring list" where
  "split_re r ic s =
     (if s = [] then (if run r ic \<lparr>mpos = 0, mrest = [], mcaps = []\<rparr> = [] then [[]] else [])
      else split_loop (Suc (length s + length s)) r ic s 0 0)"

text \<open>\<open>xs.slice(-k)\<close> and \<open>xs.slice(0, -k)\<close> for \<open>0 < k\<close>.\<close>

definition slice_last :: "nat \<Rightarrow> 'a list \<Rightarrow> 'a list" where
  "slice_last k xs = drop (length xs - k) xs"

definition slice_but_last :: "nat \<Rightarrow> 'a list \<Rightarrow> 'a list" where
  "slice_but_last k xs = take (length xs - k) xs"

definition nl :: jsstring where "nl = [10]"

definition dq :: jsstring where "dq = [34]"

section \<open>The local transcription provider\<close>

text \<open>
  \<open>services/transcribe-providers/whisper-local.js\<close>. The patterns of
  \<open>HALLUCINATION_PATTERNS\<close>, each with its \<open>i\<close> flag.
\<close>

definition HALLUCINATION_PATTERNS :: "(regex \<times> bool) list" where
  "HALLUCINATION_PATTERNS =
    [(seqs [Bol, rstar space, rplus (Chr 46), rstar space, Eol], False),
     (seqs [Bol,
            Grp 1 (alts [lit ''you'', lit ''the'', lit ''a'', lit ''I'', lit ''we'',
                         lit ''he'', lit ''she'', lit ''it'']),
            ropt (Chr 46), Eol], True),
     (seqs [lit ''thank'',
            Grp 1 (Alt (lit ''s'') (lit '' you'')),
            ropt (Grp 2 (Seq (lit '' for '') (Grp 3 (Alt (lit ''watching'') (lit ''listening'')))))],
      True),
     (seqs [lit ''please '', Grp 1 (Alt (lit ''like'') (lit ''subscribe''))], True),
     (seqs [lit ''['', Grp 1 (Alt (lit ''music'') (lit ''applause'')), lit '']''], True)]"

definition isHallucination :: "jsstring \<Rightarrow> bool" where
  "isHallucination text \<longleftrightarrow>
     (if text = [] \<or> length (trim text) \<le> 1 then True
      else list_ex (\<lambda>(p, ic). test p ic (trim text)) HALLUCINATION_PATTERNS)"

text \<open>
  Audio arrives as 16-bit signed PCM. \<open>sendAudioChunk\<close> converts every sample
  \<open>k\<close> to the Float32 value \<open>k / 32768\<close>, which is exact, so a chunk is kept
  here as its list of samples. The energy of a chunk is computed over the reals; the
  rounding of the double-precision division and square root is not modelled. An empty
  chunk gives \<open>0 / 0\<close>, which is NaN in JavaScript and compares false with every
  number: \<open>rms\<close> returns \<open>None\<close> there.
\<close>

type_synonym pcm = "16 word list"

definition INFERENCE_INTERVAL_MS :: nat where "INFERENCE_INTERVAL_MS = 1500"
definition SAMPLE_RATE :: nat where "SAMPLE_RATE = 16000"
definition MIN_DURATION_SEC :: real where "MIN_DURATION_SEC = 1.5"
definition SILENCE_RMS_THRESHOLD :: real where "SILENCE_RMS_THRESHOLD = 0.005"
definition SPEECH_TAIL_CHUNKS :: nat where "SPEECH_TAIL_CHUNKS = 10"

definition float32 :: "16 word \<Rightarrow> real" where
  "float32 k = real_of_int (sint k) / 32768"

definition sumSq :: "pcm \<Rightarrow> real" where
  "sumSq c = (\<Sum>k\<leftarrow>c. float32 k * float32 k)"

definition rms :: "pcm \<Rightarrow> real option" where
  "rms c = (if c = [] then None else Some (sqrt (sumSq c / real (length c))))"

definition loud :: "pcm \<Rightarrow> bool" where
  "loud c \<longleftrightarrow> (case rms c of None \<Rightarrow> False | Some r \<Rightarrow> SILENCE_RMS_THRESHOLD \<le> r)"

record whisper =
  running :: bool
  pendingAudio :: "pcm list"
  pendingSamples :: nat
  lastSegmentText :: jsstring
  processing :: bool
  inferenceTimer :: bool
  speechCountdown :: nat
  hasSpeechContent :: bool
  emitted :: "jsstring list"

text \<open>
  \<open>emitted\<close> is the list of the texts of the \<open>final\<close> events the provider has emitted,
  oldest first. \<open>inferenceTimer\<close> tells whether the interval timer is set.
\<close>

definition new_whisper :: whisper where
  "new_whisper =
     \<lparr>running = False, pendingAudio = [], pendingSamples = 0, lastSegmentText = [],
      processing = False, inferenceTimer = False, speechCountdown = 0,
      hasSpeechContent = False, emitted = []\<rparr>"

datatype whisper_error = AddonNotAvailable | ModelNotFound | InferenceError

text \<open>\<open>start\<close>; the two arguments say whether the addon loads and the model file exists.\<close>

definition start :: "bool \<Rightarrow> bool \<Rightarrow> whisper \<Rightarrow> whisper_error + whisper" where
  "start addon model s =
     (if running s then Inr s
      else if \<not> addon then Inl AddonNotAvailable
      else if \<not> model then Inl ModelNotFound
      else Inr (s\<lparr>running := True, pendingAudio := [], pendingSamples := 0,
                  lastSegmentText := [], processing := False, speechCountdown := 0,
                  hasSpeechContent := False, inferenceTimer := True\<rparr>))"

definition sendAudioChunk :: "pcm \<Rightarrow> whisper \<Rightarrow> whisper" where
  "sendAudioChunk c s =
     (if \<not> running s then s
      else
        (let keep = (\<lambda>s'. s'\<lparr>pendingAudio := pendingAudio s' @ [c],
                               pendingSamples := pendingSamples s' + length c\<rparr>)
         in if loud c
            then keep (s\<lparr>speechCountdown := SPEECH_TAIL_CHUNKS, hasSpeechContent := True\<rparr>)
            else if 0 < speechCountdown s
            then keep (s\<lparr>speechCountdown := speechCountdown s - 1\<rparr>)
            else s))"

text \<open>
  \<open>runInference\<close> up to its \<open>await\<close>: the result is the new state and, when an
  inference call is made, the audio and the prompt passed to it.
\<close>

definition BASE_PROMPT :: jsstring where
  "BASE_PROMPT = js ''What is going on in this window? Explain this error. Reply to this message. What does this code do? Summarize this. Draft a response.''"

definition runInference :: "bool \<Rightarrow> whisper \<Rightarrow> whisper \<times> (pcm \<times> jsstring) option" where
  "runInference isFinal s =
     (if processing s \<or> pendingAudio s = [] then (s, None)
      else if \<not> isFinal \<and> \<not> hasSpeechContent s
      then (s\<lparr>pendingAudio := [], pendingSamples := 0\<rparr>, None)
      else if \<not> isFinal \<and> real (pendingSamples s) / real SAMPLE_RATE < MIN_DURATION_SEC
      then (s, None)
      else (s\<lparr>processing := True\<rparr>,
            Some (concat (pendingAudio s),
                  if lastSegmentText s \<noteq> [] then lastSegmentText s @ js '' '' @ BASE_PROMPT
                  else BASE_PROMPT)))"

text \<open>
  \<open>runInference\<close> after its \<open>await\<close>: the addon either fails or returns the texts
  of its segments.
\<close>

definition runInference_done :: "whisper_error + jsstring list \<Rightarrow> whisper \<Rightarrow> whisper" where
  "runInference_done result s =
     (case result of
        Inl e \<Rightarrow> s\<lparr>processing := False\<rparr>
      | Inr segs \<Rightarrow>
          (let text = trim (concat segs);
               s1 = (if text \<noteq> [] \<and> \<not> isHallucination text
                     then s\<lparr>lastSegmentText := text, emitted := emitted s @ [text]\<rparr>
                     else s)
           in s1\<lparr>pendingAudio := [], pendingSamples := 0, hasSpeechContent := False,
                  processing := False\<rparr>))"

text \<open>
  The properties below speak of an output that contains a phrase anywhere, in any
  letter case: \<open>contains_ci s w\<close> holds when some position of \<open>s\<close> starts a copy of
  \<open>w\<close> up to case. \<open>filler_phrases\<close> are the phrases of the three patterns without
  anchors.
\<close>

fun contains_ci :: "jsstring \<Rightarrow> string \<Rightarrow> bool" where
  "contains_ci [] w \<longleftrightarrow> w = []"
| "contains_ci (c # cs) w \<longleftrightarrow>
     map canon (take (length w) (c # cs)) = map canon (js w) \<or> contains_ci cs w"

definition filler_phrases :: "string list" where
  "filler_phrases =
     [''thank you'', ''thanks'', ''please like'', ''please subscribe'', ''[music]'', ''[applause]'']"

definition contains_filler :: "jsstring \<Rightarrow> bool" where
  "contains_filler s \<longleftrightarrow> list_ex (contains_ci s) filler_phrases"

section \<open>Follow-up buttons\<close>

text \<open>\<open>parseButtons\<close> of the AI service, with its regular expressions in source order.\<close>

record parsed =
  content :: jsstring
  buttons :: "jsstring list"

text \<open>\<open>/\[BUTTONS:\s*([\s\S]+?)\]\s*$/i\<close>\<close>

definition buttons_tag :: regex where
  "buttons_tag =
     seqs [lit ''[BUTTONS:'', rstar space, Grp 1 (rplus_lazy anything), lit '']'',
           rstar space, Eol]"

text \<open>\<open>/^["']|["']$/g\<close>\<close>

definition quotes :: regex where
  "quotes = Alt (Seq Bol (Cls False [CChr 34, CChr 39])) (Seq (Cls False [CChr 34, CChr 39]) Eol)"

text \<open>\<open>/(\n\s*\[[^\]\n]+\]){2,}\s*$/\<close>\<close>

definition bracket_lines :: regex where
  "bracket_lines =
     seqs [at_least 2 (Grp 1 (seqs [Chr 10, rstar space, lit ''['',
                                    rplus (Cls True [CChr 93, CChr 10]), lit '']''])),
           rstar space, Eol]"

text \<open>\<open>/\n?\s*(\[[^\]\n]+\]\s*){2,}\s*$/\<close>\<close>

definition bracket_row :: regex where
  "bracket_row =
     seqs [ropt (Chr 10), rstar space,
           at_least 2 (Grp 1 (seqs [lit ''['', rplus (Cls True [CChr 93, CChr 10]), lit '']'',
                                    rstar space])),
           rstar space, Eol]"

text \<open>\<open>/\[([^\]\n]+)\]/g\<close>\<close>

definition bracket_label :: regex where
  "bracket_label = seqs [lit ''['', Grp 1 (rplus (Cls True [CChr 93, CChr 10])), lit '']'']"

text \<open>\<open>/^[-\<bullet>*]\s*/\<close>, the bullet being U+2022.\<close>

definition list_marker :: regex where
  "list_marker = seqs [Bol, Cls False [CChr 45, CChr 8226, CChr 42], rstar space]"

text \<open>\<open>/\s+/\<close> and \<open>/[.!?:;]$/\<close>\<close>

definition spaces :: regex where
  "spaces = rplus space"

definition end_punct :: regex where
  "end_punct = Seq (one_of ''.!?:;'') Eol"

text \<open>\<open>/\[BUTTONS:[\s\S]*$/i\<close>\<close>

definition buttons_fragment :: regex where
  "buttons_fragment = seqs [lit ''[BUTTONS:'', rstar anything, Eol]"

text \<open>
  The loop that counts the bare lines, from the last line upwards: the argument is the
  list of lines in reverse order.
\<close>

definition strip_marker :: "jsstring \<Rightarrow> jsstring" where
  "strip_marker l = replace_first list_marker False (trim l)"

fun count_bare :: "jsstring list \<Rightarrow> nat \<Rightarrow> nat" where
  "count_bare [] bareCount = bareCount"
| "count_bare (l # ls) bareCount =
     (if bareCount < 4
      then (let line = strip_marker l
            in if line = [] then bareCount
               else if length (split_re spaces False line) \<le> 5 \<and> \<not> test end_punct False line
               then count_bare ls (Suc bareCount)
               else bareCount)
      else bareCount)"

definition parseButtons :: "jsstring \<Rightarrow> parsed" where
  "parseButtons text =
     (if text = [] then \<lparr>content = [], buttons = []\<rparr>
      else case exec buttons_tag True text of
        Some (index, m) \<Rightarrow>
          \<lparr>content = trim (take index text),
           buttons = filter (\<lambda>s. s \<noteq> [])
                       (map (\<lambda>s. replace_all quotes False (trim s))
                            (split_chr 44 (capture text m 1)))\<rparr>
      | None \<Rightarrow>
         (let trailing = (case exec bracket_lines False text of
                            Some t \<Rightarrow> Some t
                          | None \<Rightarrow> exec bracket_row False text);
              labelled =
                (case trailing of
                   None \<Rightarrow> None
                 | Some (index, m) \<Rightarrow>
                     (let t0 = take (mpos m - index) (drop index text);
                          labels = filter (\<lambda>s. s \<noteq> [])
                                     (map (\<lambda>(i, b). trim (capture t0 b 1))
                                          (matchAll bracket_label False t0))
                      in if 2 \<le> length labels
                         then Some \<lparr>content = trim (take (length text - length t0) text),
                                    buttons = labels\<rparr>
                         else None))
          in case labelled of
               Some res \<Rightarrow> res
             | None \<Rightarrow>
                (let lines = split_chr 10 (trimEnd text);
                     bareCount = count_bare (rev lines) 0;
                     bare =
                       (if 2 \<le> bareCount
                        then (let bareLabels = filter (\<lambda>s. s \<noteq> [])
                                     (map strip_marker (slice_last bareCount lines));
                                  remaining = trim (join nl (slice_but_last bareCount lines))
                              in if 0 < length remaining
                                 then Some \<lparr>content = remaining, buttons = bareLabels\<rparr>
                                 else None)
                        else None)
                 in case bare of
                      Some res \<Rightarrow> res
                    | None \<Rightarrow>
                       (let cleaned = trim (replace_first buttons_fragment True text)
                        in if cleaned \<noteq> trim text then \<lparr>content = cleaned, buttons = []\<rparr>
                           else \<lparr>content = text, buttons = []\<rparr>))))"

text \<open>
  A bare line in the words of the specification: trimmed and without its list marker it
  is not empty, has at most 5 words and does not end in one of the characters
  \<open>. ! ? : ;\<close>. It is the condition under which the loop of \<open>count_bare\<close> goes on.
\<close>

definition bare_line :: "jsstring \<Rightarrow> bool" where
  "bare_line l \<longleftrightarrow>
     (let line = strip_marker l
      in line \<noteq> [] \<and> length (split_re spaces False line) \<le> 5
         \<and> \<not> test end_punct False line)"

section \<open>Provider registries\<close>

text \<open>
  \<open>AIService\<close> and \<open>TranscribeService\<close> hold the current provider instance and the id
  it was created for. An instance is named by a number, fresh at every construction.
  \<open>hooks\<close> is the list of what the registry has done to provider instances, oldest
  first: a construction (with the class), a call of the instance's
  \<open>invalidateClient\<close>, of its \<open>removeAllListeners\<close>, the wiring of the
  forwarding listeners, or a use (\<open>converse\<close>, \<open>start\<close>).
\<close>

datatype hook =
    Constructed string nat
  | InvalidateClient nat
  | RemoveAllListeners nat
  | Converse nat
  | WireEvents nat
  | Start nat

record registry =
  provider :: "nat option"
  providerType :: "string option"
  fresh :: nat
  hooks :: "hook list"

definition new_registry :: registry where
  "new_registry = \<lparr>provider = None, providerType = None, fresh = 0, hooks = []\<rparr>"

datatype reg_error =
  UnknownProvider string | NoProviderClass string | TypeError string | NullProvider

text \<open>
  A provider module is the list of its exported keys, each with the flag that says
  whether the exported value is a function. The two tables are the \<open>PROVIDERS\<close>
  objects of the two services with the exports of the modules they load.
\<close>

type_synonym module = "(string \<times> bool) list"

definition AI_PROVIDERS :: "(string \<times> module) list" where
  "AI_PROVIDERS =
    [(''bedrock'', [(''id'', False), (''label'', False), (''models'', False), (''fastModel'', False),
        (''configFields'', False), (''BedrockProvider'', True), (''listAwsProfiles'', True),
        (''findIsengardProfile'', True), (''isIsengardProfile'', True),
        (''profileUsesCredentialProcess'', True), (''validate'', True)]),
     (''anthropic'', [(''id'', False), (''label'', False), (''models'', False), (''fastModel'', False),
        (''configFields'', False), (''AnthropicProvider'', True), (''validate'', True)]),
     (''openai'', [(''id'', False), (''label'', False), (''models'', False), (''fastModel'', False),
        (''configFields'', False), (''OpenAIProvider'', True), (''validate'', True)]),
     (''openrouter'', [(''id'', False), (''label'', False), (''models'', False), (''fastModel'', False),
        (''configFields'', False), (''OpenRouterProvider'', True), (''validate'', True)]),
     (''google'', [(''id'', False), (''label'', False), (''models'', False), (''fastModel'', False),
        (''configFields'', False), (''GoogleProvider'', True), (''validate'', True)]),
     (''azure'', [(''id'', False), (''label'', False), (''models'', False), (''fastModel'', False),
        (''configFields'', False), (''AzureProvider'', True), (''validate'', True)]),
     (''local'', [(''id'', False), (''label'', False), (''models'', False), (''fastModel'', False),
        (''configFields'', False), (''LocalProvider'', True), (''downloadModel'', True),
        (''isAvailable'', True)])]"

definition TRANSCRIBE_PROVIDERS :: "(string \<times> module) list" where
  "TRANSCRIBE_PROVIDERS =
    [(''aws'', [(''id'', False), (''label'', False), (''configFields'', False),
        (''AwsTranscribeProvider'', True), (''validate'', True)]),
     (''deepgram'', [(''id'', False), (''label'', False), (''configFields'', False),
        (''DeepgramProvider'', True), (''validate'', True)]),
     (''whisper'', [(''id'', False), (''label'', False), (''configFields'', False),
        (''WhisperLocalProvider'', True)])]"

definition endsWith :: "string \<Rightarrow> string \<Rightarrow> bool" where
  "endsWith suffix k \<longleftrightarrow> length suffix \<le> length k \<and> drop (length k - length suffix) k = suffix"

definition className :: "module \<Rightarrow> string option" where
  "className meta = map_option fst (find (\<lambda>(k, f). endsWith ''Provider'' k \<and> f) meta)"

text \<open>
  \<open>PROVIDERS[type]\<close> and its call. Both tables are plain objects, so an id that is
  not a key of the table still finds the properties inherited from
  \<open>Object.prototype\<close>. \<open>lookup method table type\<close> is \<open>None\<close> when the property is
  undefined, \<open>Some Throws\<close> when the call of the value found throws a
  \<open>TypeError\<close>, and \<open>Some (Returns meta)\<close> when the call returns a value with the
  own enumerable keys \<open>meta\<close>. \<open>method\<close> says how the value is called:
  \<open>AIService.getProviderMeta\<close> calls \<open>loader()\<close>, with \<open>this\<close> undefined, and
  \<open>TranscribeService.getProvider\<close> calls \<open>PROVIDERS[type]()\<close>, with \<open>this\<close> the
  table.

  With \<open>this\<close> undefined: \<open>constructor\<close> returns a new empty object,
  \<open>toString\<close> the string \<open>[object Undefined]\<close> (its keys are the 18 indices),
  \<open>isPrototypeOf\<close> the value \<open>false\<close>; the other functions convert \<open>this\<close> to an
  object and throw. With \<open>this\<close> the table: \<open>toString\<close> and
  \<open>toLocaleString\<close> return \<open>[object Object]\<close> (15 indices), \<open>valueOf\<close> the
  table itself, \<open>hasOwnProperty\<close>, \<open>isPrototypeOf\<close> and
  \<open>propertyIsEnumerable\<close> the value \<open>false\<close>; \<open>__defineGetter__\<close> and
  \<open>__defineSetter__\<close> throw since their second argument is not callable, and
  \<open>__lookupGetter__\<close> and \<open>__lookupSetter__\<close> return \<open>undefined\<close>, of which
  \<open>Object.keys\<close> throws. \<open>__proto__\<close> is \<open>Object.prototype\<close>, an object that is
  not a function, in both cases.
\<close>

datatype called = Returns module | Throws

text \<open>
  The own enumerable keys of a string of \<open>n\<close> characters, \<open>n\<close> below 100: its indices
  written in decimal, none of them naming a function.
\<close>

definition index_key :: "nat \<Rightarrow> string" where
  "index_key i =
     (if i < 10 then [char_of (48 + i)]
      else [char_of (48 + i div 10), char_of (48 + i mod 10)])"

definition index_keys :: "nat \<Rightarrow> module" where
  "index_keys n = map (\<lambda>i. (index_key i, False)) [0..<n]"

definition inherited :: "bool \<Rightarrow> (string \<times> module) list \<Rightarrow> string \<Rightarrow> called option" where
  "inherited method table type =
     (if type = ''constructor'' then Some (Returns [])
      else if type = ''toString'' then Some (Returns (index_keys (if method then 15 else 18)))
      else if type = ''toLocaleString''
      then Some (if method then Returns (index_keys 15) else Throws)
      else if type = ''valueOf''
      then Some (if method then Returns (map (\<lambda>(k, m). (k, True)) table) else Throws)
      else if type = ''isPrototypeOf'' then Some (Returns [])
      else if type = ''hasOwnProperty'' \<or> type = ''propertyIsEnumerable''
      then Some (if method then Returns [] else Throws)
      else if type = ''__defineGetter__'' \<or> type = ''__defineSetter__''
              \<or> type = ''__lookupGetter__'' \<or> type = ''__lookupSetter__''
              \<or> type = ''__proto__''
      then Some Throws
      else None)"

definition lookup :: "bool \<Rightarrow> (string \<times> module) list \<Rightarrow> string \<Rightarrow> called option" where
  "lookup method table type =
     (case map_of table type of
        Some meta \<Rightarrow> Some (Returns meta)
      | None \<Rightarrow> inherited method table type)"

text \<open>
  \<open>AIService.getProvider\<close>. The argument is the value of the configuration key
  \<open>ai.provider\<close>, empty when it is not set. An exception leaves the registry as it was.
\<close>

definition ai_getProvider :: "string \<Rightarrow> registry \<Rightarrow> (reg_error + nat option) \<times> registry" where
  "ai_getProvider cfg s =
     (let type = (if cfg = [] then ''bedrock'' else cfg)
      in if providerType s \<noteq> Some type
         then (case lookup False AI_PROVIDERS type of
                 None \<Rightarrow> (Inl (UnknownProvider type), s)
               | Some Throws \<Rightarrow> (Inl (TypeError type), s)
               | Some (Returns meta) \<Rightarrow>
                  (case className meta of
                     None \<Rightarrow> (Inl (NoProviderClass type), s)
                   | Some cls \<Rightarrow>
                       (Inr (Some (fresh s)),
                        s\<lparr>provider := Some (fresh s), providerType := Some type,
                          fresh := Suc (fresh s),
                          hooks := hooks s @ [Constructed cls (fresh s)]\<rparr>)))
         else (Inr (provider s), s))"

definition ai_invalidateClient :: "registry \<Rightarrow> registry" where
  "ai_invalidateClient s =
     (let s1 = (case provider s of
                  Some p \<Rightarrow> s\<lparr>hooks := hooks s @ [InvalidateClient p]\<rparr>
                | None \<Rightarrow> s)
      in s1\<lparr>provider := None, providerType := None\<rparr>)"

text \<open>\<open>AIService.converse\<close> up to and with the call of the provider's \<open>converse\<close>.\<close>

definition ai_converse :: "string \<Rightarrow> registry \<Rightarrow> (reg_error + nat) \<times> registry" where
  "ai_converse cfg s =
     (case ai_getProvider cfg s of
        (Inl e, s1) \<Rightarrow> (Inl e, s1)
      | (Inr None, s1) \<Rightarrow> (Inl NullProvider, s1)
      | (Inr (Some p), s1) \<Rightarrow> (Inr p, s1\<lparr>hooks := hooks s1 @ [Converse p]\<rparr>))"

text \<open>
  \<open>TranscribeService.getProvider\<close>. The listeners of the old instance are removed
  before the table is consulted, so they stay removed when the lookup throws. An id
  that names no property at all throws too: the call of \<open>undefined\<close> is a
  \<open>TypeError\<close>.
\<close>

definition transcribe_getProvider :: "string \<Rightarrow> registry \<Rightarrow> (reg_error + nat option) \<times> registry" where
  "transcribe_getProvider cfg s =
     (let type = (if cfg = [] then ''aws'' else cfg)
      in if providerType s \<noteq> Some type
         then (let s1 = (case provider s of
                           Some p \<Rightarrow> s\<lparr>hooks := hooks s @ [RemoveAllListeners p]\<rparr>
                         | None \<Rightarrow> s)
               in case lookup True TRANSCRIBE_PROVIDERS type of
                    None \<Rightarrow> (Inl (TypeError type), s1)
                  | Some Throws \<Rightarrow> (Inl (TypeError type), s1)
                  | Some (Returns meta) \<Rightarrow>
                     (case className meta of
                        None \<Rightarrow> (Inl (NoProviderClass type), s1)
                      | Some cls \<Rightarrow>
                          (Inr (Some (fresh s1)),
                           s1\<lparr>provider := Some (fresh s1), providerType := Some type,
                              fresh := Suc (fresh s1),
                              hooks := hooks s1 @ [Constructed cls (fresh s1)]\<rparr>)))
         else (Inr (provider s), s))"

text \<open>\<open>TranscribeService.start\<close> up to and with the call of the provider's \<open>start\<close>.\<close>

definition transcribe_start :: "string \<Rightarrow> registry \<Rightarrow> (reg_error + nat) \<times> registry" where
  "transcribe_start cfg s =
     (case transcribe_getProvider cfg s of
        (Inl e, s1) \<Rightarrow> (Inl e, s1)
      | (Inr None, s1) \<Rightarrow> (Inl NullProvider, s1)
      | (Inr (Some p), s1) \<Rightarrow> (Inr p, s1\<lparr>hooks := hooks s1 @ [WireEvents p, Start p]\<rparr>))"

section \<open>The session orchestrator\<close>

text \<open>
  \<open>SessionOrchestrator\<close>. JavaScript runs a handler without interruption up to an
  \<open>await\<close> on an operation of a collaborator; what follows the \<open>await\<close> runs when the
  operation settles. Each handler is therefore a function on the state of the
  orchestrator that ends by recording the suspended rest of itself as a \<open>task\<close>; the
  rest is a second function, run when the task is resumed. Everything the orchestrator
  does to a collaborator is appended to \<open>trace\<close>.
\<close>

datatype State = IDLE | RECORDING | CONVERSING | CANCELLED

datatype role = User | Assistant

record message =
  msg_role :: role
  msg_content :: jsstring
  msg_buttons :: "jsstring list"

record segment =
  seg_id :: nat
  seg_text :: jsstring
  seg_timestamp :: nat

record round =
  segments :: "segment list"
  segmentCounter :: nat
  currentPartial :: jsstring

record window =
  win_title :: jsstring
  win_owner :: jsstring
  win_bounds :: bool

record conversation =
  messages :: "message list"
  screenshot :: "jsstring option"
  windowInfo :: "window option"
  tokenUsage :: "nat \<times> nat"

text \<open>
  A user message has no buttons field; it is kept with an empty list. The screenshot is
  kept as its base64 text. \<open>tokenUsage\<close> is the pair of the input and output counters;
  the conversation object made by the constructor has no such field, and every path
  that reads it runs after a session start or a reset, which set it. The id of a
  history entry is \<open>Date.now()\<close> written in base 36; it is kept as that number.
\<close>

record history_entry =
  h_id :: nat
  h_timestamp :: nat
  h_transcript :: jsstring
  h_aiText :: jsstring
  h_windowTitle :: jsstring
  h_durationMs :: int
  h_rounds :: nat
  h_messages :: "(role \<times> jsstring) list"
  h_screenshot :: "jsstring option"
  h_tokenUsage :: "(nat \<times> nat) option"

datatype ui_event =
    Show
  | Hide
  | NewRound
  | Finalizing
  | Screenshot jsstring
  | UpdateTranscription jsstring
  | ButtonThinking jsstring
  | StreamChunk jsstring
  | RoundComplete jsstring "jsstring list"
  | ErrorBanner jsstring jsstring "jsstring list"
  | AutoCopied
  | CancelEvent

datatype effect =
    HideSettings
  | Send ui_event
  | SetSessionActive bool
  | EmitOpenSettings
  | GetActiveWindow
  | Capture
  | HighlightShow bool
  | HighlightFlash
  | HighlightHide
  | PreviewHide
  | ShowOverlay
  | HideOverlay
  | TranscribeOn
  | TranscribeStart
  | TranscribeStop
  | TranscribeOff
  | LoadCredentials
  | AIInvalidate
  | AIConverse "message list"
  | AIReset
  | ClipboardWrite jsstring
  | HistorySave history_entry
  | SetTimeout nat

text \<open>
  \<open>Send e\<close> is \<open>overlay.webContents.send\<close>, \<open>TranscribeOn\<close> the registration of the
  three listeners on the transcription service, \<open>TranscribeOff\<close> their removal,
  \<open>TranscribeStart\<close> and \<open>TranscribeStop\<close> the calls of its \<open>start\<close> and \<open>stop\<close>,
  \<open>AIConverse ms\<close> the call of \<open>aiService.converse\<close> with the messages \<open>ms\<close>,
  \<open>HistorySave\<close> the call of \<open>historyService.save\<close>, \<open>SetTimeout d\<close> the call of
  \<open>setTimeout\<close> with the delay \<open>d\<close> in milliseconds.
\<close>

datatype task =
    TWindow nat
  | TCapture nat nat
  | TFlash nat
  | TStart
  | TFinalizeCtx nat nat
  | TFinalizeStop nat
  | TRespond bool bool
  | TCancelStop
  | TSaveStop
  | TTimer

text \<open>
  The suspended handlers. \<open>TWindow k\<close>, \<open>TCapture k c\<close>, \<open>TFlash k\<close>: the context
  capture number \<open>k\<close> awaiting the window service, the capture service (\<open>c\<close> names the
  conversation object whose \<open>screenshot\<close> the result is assigned to, which JavaScript
  determines before the \<open>await\<close>), the 2000 ms of the flash.
  \<open>TStart\<close>: \<open>startTranscription\<close> awaiting \<open>start\<close>. \<open>TFinalizeCtx r k\<close>:
  \<open>finalizeRound\<close> with \<open>myRound = r\<close> awaiting the promise of capture \<open>k\<close>.
  \<open>TFinalizeStop r\<close>: \<open>finalizeRound\<close> with \<open>myRound = r\<close> awaiting
  \<open>stopTranscription\<close>. \<open>TRespond ov fin\<close>: \<open>respondToUser\<close> awaiting the AI call, with
  the overlay it read (\<open>ov\<close>: not null) and whether \<open>finalizeRound\<close> awaits it.
  \<open>TCancelStop\<close>, \<open>TSaveStop\<close>: \<open>onCancel\<close> and \<open>saveAndReset\<close> awaiting
  \<open>stopTranscription\<close>. \<open>TTimer\<close>: the timer set by \<open>onCancel\<close>.
\<close>

record deps =
  overlay :: bool
  windowService :: bool
  captureService :: bool
  transcribeService :: bool
  aiService :: bool
  historyService :: bool
  highlightService :: bool
  highlightFlash :: bool
  screenshotPreview :: bool
  loadCredentials :: bool
  windowMode :: bool

text \<open>
  Which collaborators exist: the overlay window returned by \<open>getOverlayWindow\<close>, the
  services given to the constructor, the \<open>flash\<close> method of the highlight service, the
  \<open>loadCredentials\<close> method of the transcription provider; \<open>windowMode\<close> says that
  the configured capture mode is \<open>window\<close>.
\<close>

record orch =
  env :: deps
  state :: State
  conversation :: conversation
  conversationId :: nat
  currentRound :: round
  roundNumber :: nat
  sessionStartTime :: nat
  contextReady :: "nat option"
  aiInFlight :: bool
  finalizing :: bool
  listeners :: nat
  nextCapture :: nat
  settled :: "nat list"
  clock :: nat
  tasks :: "task list"
  trace :: "effect list"

text \<open>
  \<open>conversationId\<close> counts the conversation objects made so far and so names the
  current one. \<open>contextReady\<close> holds the number of the capture whose promise it is,
  \<open>settled\<close> the captures that have finished, \<open>listeners\<close> how many times the three listeners are
  registered on the transcription service, \<open>clock\<close> what \<open>Date.now()\<close> returns.
\<close>

definition new_conversation :: conversation where
  "new_conversation = \<lparr>messages = [], screenshot = None, windowInfo = None, tokenUsage = (0, 0)\<rparr>"

definition new_round :: round where
  "new_round = \<lparr>segments = [], segmentCounter = 0, currentPartial = []\<rparr>"

definition new_orch :: "deps \<Rightarrow> orch" where
  "new_orch d =
     \<lparr>env = d, state = IDLE, conversation = new_conversation, conversationId = 0,
      currentRound = new_round,
      roundNumber = 0, sessionStartTime = 0, contextReady = None, aiInFlight = False,
      finalizing = False, listeners = 0, nextCapture = 0, settled = [], clock = 0,
      tasks = [], trace = []\<rparr>"

definition emit :: "effect list \<Rightarrow> orch \<Rightarrow> orch" where
  "emit es s = s\<lparr>trace := trace s @ es\<rparr>"

definition emit_if :: "bool \<Rightarrow> effect list \<Rightarrow> orch \<Rightarrow> orch" where
  "emit_if b es s = (if b then emit es s else s)"

definition send :: "ui_event \<Rightarrow> orch \<Rightarrow> orch" where
  "send e s = emit_if (overlay (env s)) [Send e] s"

definition spawn :: "task \<Rightarrow> orch \<Rightarrow> orch" where
  "spawn t s = s\<lparr>tasks := tasks s @ [t]\<rparr>"

definition push_message :: "message \<Rightarrow> orch \<Rightarrow> orch" where
  "push_message m s =
     s\<lparr>conversation := (conversation s)\<lparr>messages := messages (conversation s) @ [m]\<rparr>\<rparr>"

subsection \<open>Session lifecycle\<close>

definition reset :: "orch \<Rightarrow> orch" where
  "reset s =
     (let s1 = emit_if (highlightService (env s)) [HighlightHide] s;
          s2 = emit_if (screenshotPreview (env s)) [PreviewHide] s1;
          s3 = s2\<lparr>state := IDLE, aiInFlight := False, finalizing := False,
                  conversation := new_conversation,
                  conversationId := Suc (conversationId s2), currentRound := new_round,
                  roundNumber := 0, contextReady := None\<rparr>;
          s4 = emit [SetSessionActive False] s3
      in emit_if (aiService (env s)) [AIReset] s4)"

definition hideAndReset :: "orch \<Rightarrow> orch" where
  "hideAndReset s = reset (send Hide (emit [HideOverlay] s))"

text \<open>
  \<open>stopTranscription\<close> calls \<open>stop\<close>, awaits it and removes the listeners. Without a
  transcription service it returns at once and its caller goes on before any other
  handler can run: \<open>await_stop t k\<close> then runs the rest \<open>k\<close> of the caller directly;
  otherwise it suspends the caller as the task \<open>t\<close>. \<open>stop_settled\<close> is the part of
  \<open>stopTranscription\<close> after its \<open>await\<close>.
\<close>

definition await_stop :: "task \<Rightarrow> (orch \<Rightarrow> orch) \<Rightarrow> orch \<Rightarrow> orch" where
  "await_stop t k s =
     (if transcribeService (env s) then spawn t (emit [TranscribeStop] s) else k s)"

definition stop_settled :: "orch \<Rightarrow> orch" where
  "stop_settled s = emit [TranscribeOff] (s\<lparr>listeners := 0\<rparr>)"

definition arrow :: jsstring where
  "arrow = js '' '' @ [8594] @ js '' ''"

definition history_of :: "orch \<Rightarrow> history_entry" where
  "history_of s =
     (let c = conversation s;
          ms = messages c;
          lastAssistant = find (\<lambda>m. msg_role m = Assistant) (rev ms)
      in \<lparr>h_id = clock s,
          h_timestamp = clock s,
          h_transcript = join arrow (map msg_content (filter (\<lambda>m. msg_role m = User) ms)),
          h_aiText = (case lastAssistant of None \<Rightarrow> [] | Some m \<Rightarrow> msg_content m),
          h_windowTitle =
            (case windowInfo c of
               None \<Rightarrow> js ''unknown''
             | Some w \<Rightarrow> if win_title w = [] then js ''unknown'' else win_title w),
          h_durationMs = int (clock s) - int (sessionStartTime s),
          h_rounds = (length ms + 1) div 2,
          h_messages = map (\<lambda>m. (msg_role m, msg_content m)) ms,
          h_screenshot = (case screenshot c of
                            None \<Rightarrow> None
                          | Some b \<Rightarrow> if b = [] then None else Some b),
          h_tokenUsage = (if 0 < fst (tokenUsage c) then Some (tokenUsage c) else None)\<rparr>)"

text \<open>\<open>saveAndReset\<close> after its \<open>await\<close>, and \<open>saveAndReset\<close> itself.\<close>

definition save_after_stop :: "orch \<Rightarrow> orch" where
  "save_after_stop s =
     (let s1 = emit_if (screenshotPreview (env s)) [PreviewHide] s;
          s2 = (if historyService (env s1) \<and> 0 < length (messages (conversation s1))
                then emit [HistorySave (history_of s1)] s1 else s1)
      in hideAndReset s2)"

definition saveAndReset :: "orch \<Rightarrow> orch" where
  "saveAndReset s = await_stop TSaveStop save_after_stop s"

definition onClose :: "orch \<Rightarrow> orch" where
  "onClose s = (if state s = IDLE then s else saveAndReset s)"

text \<open>\<open>onCancel\<close>, its rest after the \<open>await\<close>, and the callback of its timer.\<close>

definition cancel_after_stop :: "orch \<Rightarrow> orch" where
  "cancel_after_stop s = spawn TTimer (emit [SetTimeout 300] (send CancelEvent s))"

definition onCancel :: "orch \<Rightarrow> orch" where
  "onCancel s =
     (if state s = IDLE then s
      else await_stop TCancelStop cancel_after_stop
             (emit_if (screenshotPreview (env s)) [PreviewHide] (s\<lparr>state := CANCELLED\<rparr>)))"

definition timer_fired :: "orch \<Rightarrow> orch" where
  "timer_fired s = hideAndReset s"

subsection \<open>The AI round\<close>

text \<open>
  \<open>/signature.*does not match|signing method/i\<close>,
  \<open>/not configured|api key|credentials|invalid/i\<close>,
  \<open>/<\|(?:endoftext|im_end|end|eot_id)\|>/gi\<close>,
  the fenced block with its code as group 1 and the fenced block alone.
\<close>

definition signature_error :: regex where
  "signature_error =
     Alt (seqs [lit ''signature'', rstar Dot, lit ''does not match'']) (lit ''signing method'')"

definition credential_error :: regex where
  "credential_error =
     alts [lit ''not configured'', lit ''api key'', lit ''credentials'', lit ''invalid'']"

definition eos_token :: regex where
  "eos_token =
     seqs [lit ''<|'', alts [lit ''endoftext'', lit ''im_end'', lit ''end'', lit ''eot_id''],
           lit ''|>'']"

definition fenced_code :: regex where
  "fenced_code =
     seqs [lit ''```'', rstar_lazy anything, Chr 10, Grp 1 (rstar_lazy anything), lit ''```'']"

definition fenced :: regex where
  "fenced = seqs [lit ''```'', rstar_lazy anything, lit ''```'']"

text \<open>An error is kept as its message; \<open>String(err)\<close> of an error without message is
  \<open>Error\<close>.\<close>

definition friendlyError :: "jsstring \<Rightarrow> jsstring" where
  "friendlyError message =
     (let msg = (if message = [] then js ''Error'' else message)
      in if test signature_error True msg
         then js ''AWS credentials expired '' @ [8212]
                @ js '' refresh your credentials and try again.''
         else (let firstLine = trim (hd (split_chr 10 msg))
               in if 200 < length firstLine then take 200 firstLine @ js ''...''
                  else firstLine))"

definition autoCopyIfClean :: "jsstring \<Rightarrow> orch \<Rightarrow> orch" where
  "autoCopyIfClean c s =
     (if c = [] then s
      else (let blocks = filter (\<lambda>code. code \<noteq> [])
                           (map (\<lambda>(i, m). trim (capture c m 1)) (matchAll fenced_code False c))
            in if length blocks \<noteq> 1 then s
               else (let outside = trim (replace_all fenced False c)
                     in if 120 < length outside then s
                        else send AutoCopied (emit [ClipboardWrite (hd blocks)] s))))"

text \<open>
  \<open>respondToUser\<close> after its \<open>await\<close>: the call returned the text and the usage
  counters, or it failed with a message; then the \<open>finally\<close> blocks of
  \<open>respondToUser\<close> and, when it awaits the call, of \<open>finalizeRound\<close>.
\<close>

definition respond_ok :: "bool \<Rightarrow> jsstring \<Rightarrow> (nat \<times> nat) option \<Rightarrow> orch \<Rightarrow> orch" where
  "respond_ok ov aiText usage s =
     (if state s \<noteq> CONVERSING then s
      else (let c = conversation s;
                s1 = (case usage of
                        None \<Rightarrow> s
                      | Some (i, out) \<Rightarrow>
                          s\<lparr>conversation := c\<lparr>tokenUsage :=
                               (fst (tokenUsage c) + i, snd (tokenUsage c) + out)\<rparr>\<rparr>);
                p = parseButtons aiText;
                s2 = push_message
                       \<lparr>msg_role = Assistant, msg_content = content p, msg_buttons = buttons p\<rparr> s1;
                s3 = emit_if ov [Send (RoundComplete (content p) (buttons p))] s2
            in autoCopyIfClean (content p) s3))"

definition respond_failed :: "bool \<Rightarrow> jsstring \<Rightarrow> orch \<Rightarrow> orch" where
  "respond_failed ov message s =
     (if state s \<noteq> CONVERSING then s
      else (let c = js ''**Error:** '' @ friendlyError message;
                bs = (if test credential_error True message
                      then [js ''Settings'', js ''Try again''] else [js ''Try again'']);
                s1 = push_message \<lparr>msg_role = Assistant, msg_content = c, msg_buttons = bs\<rparr> s
            in emit_if ov [Send (RoundComplete c bs)] s1))"

definition respond_finally :: "bool \<Rightarrow> orch \<Rightarrow> orch" where
  "respond_finally fin s =
     (let s1 = s\<lparr>aiInFlight := False\<rparr> in if fin then s1\<lparr>finalizing := False\<rparr> else s1)"

definition respondToUser :: "bool \<Rightarrow> jsstring \<Rightarrow> orch \<Rightarrow> orch" where
  "respondToUser fin userMessage s =
     (let s1 = push_message \<lparr>msg_role = User, msg_content = userMessage, msg_buttons = []\<rparr> s;
          ov = overlay (env s1);
          s2 = (send (ButtonThinking userMessage) s1)\<lparr>aiInFlight := True\<rparr>
      in if aiService (env s2)
         then spawn (TRespond ov fin) (emit [AIConverse (messages (conversation s2))] s2)
         else respond_finally fin
                (respond_failed ov
                   (js ''Cannot read properties of null (reading 'converse')'') s2))"

definition onButtonClick :: "jsstring \<Rightarrow> orch \<Rightarrow> orch" where
  "onButtonClick label s =
     (if label = js ''Settings'' then emit [EmitOpenSettings] s
      else if label = js ''Dismiss'' then onClose s
      else if state s \<noteq> CONVERSING then s
      else respondToUser False label s)"

subsection \<open>Finalizing a round\<close>

definition round_transcript :: "round \<Rightarrow> jsstring" where
  "round_transcript r =
     (let transcript = join (js '' '') (map seg_text (segments r))
      in if trim transcript = [] \<and> trim (currentPartial r) \<noteq> []
         then trim (currentPartial r) else transcript)"

text \<open>
  \<open>finalizeRound\<close> after the \<open>await\<close> of \<open>stopTranscription\<close>, after the \<open>await\<close> of the
  context capture, and from its start. \<open>saveAndReset\<close> is called without \<open>await\<close>:
  it runs up to its own \<open>await\<close>, then the \<open>finally\<close> block clears \<open>finalizing\<close>.
\<close>

definition finalize_after_stop :: "nat \<Rightarrow> orch \<Rightarrow> orch" where
  "finalize_after_stop myRound s =
     (if roundNumber s \<noteq> myRound then s\<lparr>finalizing := False\<rparr>
      else (let transcript = round_transcript (currentRound s)
            in if trim transcript = [] then (saveAndReset s)\<lparr>finalizing := False\<rparr>
               else respondToUser True transcript s))"

definition finalize_after_context :: "nat \<Rightarrow> orch \<Rightarrow> orch" where
  "finalize_after_context myRound s =
     (if roundNumber s \<noteq> myRound then s\<lparr>finalizing := False\<rparr>
      else await_stop (TFinalizeStop myRound) (finalize_after_stop myRound)
             (emit_if (highlightService (env s)) [HighlightHide] s))"

definition finalizeRound :: "orch \<Rightarrow> orch" where
  "finalizeRound s =
     (let myRound = roundNumber s;
          s1 = send Finalizing (s\<lparr>state := CONVERSING, finalizing := True\<rparr>)
      in case contextReady s1 of
           None \<Rightarrow> finalize_after_context myRound s1
         | Some k \<Rightarrow>
             if k \<in> set (settled s1) then finalize_after_context myRound s1
             else spawn (TFinalizeCtx myRound k) s1)"

subsection \<open>Context capture\<close>

text \<open>
  The end of \<open>captureContext\<close> number \<open>k\<close>: its promise settles, and the rounds being
  finalized that await it go on, before any other handler runs.
\<close>

fun waiter :: "nat \<Rightarrow> task \<Rightarrow> nat option" where
  "waiter k (TFinalizeCtx r k') = (if k' = k then Some r else None)"
| "waiter k t = None"

definition capture_end :: "nat \<Rightarrow> orch \<Rightarrow> orch" where
  "capture_end k s =
     (let s1 = (emit [ShowOverlay] s)\<lparr>contextReady := None, settled := settled s @ [k]\<rparr>;
          rs = List.map_filter (waiter k) (tasks s1);
          s2 = s1\<lparr>tasks := filter (\<lambda>t. waiter k t = None) (tasks s1)\<rparr>
      in fold finalize_after_context rs s2)"

definition flash_settled :: "nat \<Rightarrow> orch \<Rightarrow> orch" where
  "flash_settled k s = capture_end k (emit [HighlightHide] s)"

definition capture_settled :: "nat \<Rightarrow> nat \<Rightarrow> jsstring option option \<Rightarrow> orch \<Rightarrow> orch" where
  "capture_settled k c result s =
     (case result of
        None \<Rightarrow> capture_end k s
      | Some shot \<Rightarrow>
          (let s1 = (if c = conversationId s
                     then s\<lparr>conversation := (conversation s)\<lparr>screenshot := shot\<rparr>\<rparr> else s)
           in case screenshot (conversation s1) of
                None \<Rightarrow> capture_end k s1
              | Some b \<Rightarrow>
                  (let s2 = emit [ShowOverlay] (send (Screenshot b) s1)
                   in if highlightService (env s2) \<and> highlightFlash (env s2)
                      then spawn (TFlash k) (emit [HighlightFlash] s2)
                      else capture_end k s2)))"

definition capture_after_window :: "nat \<Rightarrow> orch \<Rightarrow> orch" where
  "capture_after_window k s =
     (let bounds = (case windowInfo (conversation s) of None \<Rightarrow> False | Some w \<Rightarrow> win_bounds w);
          s1 = emit_if (highlightService (env s))
                 [HighlightShow (windowMode (env s) \<and> bounds)] s
      in if captureService (env s1)
         then spawn (TCapture k (conversationId s1)) (emit [Capture] s1)
         else capture_end k s1)"

definition window_settled :: "nat \<Rightarrow> window option option \<Rightarrow> orch \<Rightarrow> orch" where
  "window_settled k result s =
     capture_after_window k
       (case result of
          None \<Rightarrow> s
        | Some info \<Rightarrow> s\<lparr>conversation := (conversation s)\<lparr>windowInfo := info\<rparr>\<rparr>)"

definition captureContext :: "nat \<Rightarrow> orch \<Rightarrow> orch" where
  "captureContext k s =
     (if windowService (env s) then spawn (TWindow k) (emit [GetActiveWindow] s)
      else capture_after_window k s)"

subsection \<open>Transcription\<close>

definition onServiceError :: "jsstring \<Rightarrow> jsstring \<Rightarrow> orch \<Rightarrow> orch" where
  "onServiceError title message s =
     (let s1 = s\<lparr>state := CONVERSING\<rparr>;
          s2 = (if test signature_error True message
                then emit_if (aiService (env s1)) [AIInvalidate]
                       (emit_if (transcribeService (env s1) \<and> loadCredentials (env s1))
                          [LoadCredentials] s1)
                else s1)
      in send (ErrorBanner title (friendlyError message) [js ''Settings'', js ''Dismiss'']) s2)"

definition sendTranscriptToOverlay :: "orch \<Rightarrow> orch" where
  "sendTranscriptToOverlay s =
     (let display = join (js '' '') (map seg_text (segments (currentRound s)));
          partial = currentPartial (currentRound s);
          full = (if display \<noteq> []
                  then (if partial \<noteq> [] then display @ js '' '' @ partial else display)
                  else partial)
      in send (UpdateTranscription full) s)"

definition on_partial :: "jsstring \<Rightarrow> orch \<Rightarrow> orch" where
  "on_partial text s =
     (if state s \<noteq> RECORDING \<and> state s \<noteq> CONVERSING then s
      else sendTranscriptToOverlay
             (s\<lparr>currentRound := (currentRound s)\<lparr>currentPartial := text\<rparr>\<rparr>))"

definition on_final :: "jsstring \<Rightarrow> orch \<Rightarrow> orch" where
  "on_final text s =
     (if state s \<noteq> RECORDING \<and> state s \<noteq> CONVERSING then s
      else (let r = currentRound s;
                n = Suc (segmentCounter r)
            in sendTranscriptToOverlay
                 (s\<lparr>currentRound :=
                      r\<lparr>segmentCounter := n,
                        segments := segments r
                          @ [\<lparr>seg_id = n, seg_text = trim text, seg_timestamp = clock s\<rparr>],
                        currentPartial := []\<rparr>\<rparr>)))"

definition startTranscription :: "orch \<Rightarrow> orch" where
  "startTranscription s =
     (if \<not> transcribeService (env s) then s
      else spawn TStart
             (emit [TranscribeOn, TranscribeStart] (s\<lparr>listeners := Suc (listeners s)\<rparr>)))"

definition start_settled :: "jsstring option \<Rightarrow> orch \<Rightarrow> orch" where
  "start_settled failure s =
     (case failure of
        None \<Rightarrow> s
      | Some message \<Rightarrow> onServiceError (js ''Transcription failed'') message s)"

subsection \<open>The trigger\<close>

text \<open>\<open>onTriggerDown\<close>; the argument is what \<open>isSettingsOpen()\<close> returns.\<close>

definition onTriggerDown :: "bool \<Rightarrow> orch \<Rightarrow> orch" where
  "onTriggerDown settingsOpen s0 =
     (let s = emit_if settingsOpen [HideSettings] s0
      in if state s = RECORDING then finalizeRound s
         else if state s = CONVERSING
         then (if aiInFlight s \<or> finalizing s then s
               else startTranscription
                      (send NewRound
                         (s\<lparr>roundNumber := Suc (roundNumber s), currentRound := new_round,
                            state := RECORDING\<rparr>)))
         else if state s \<noteq> IDLE then s
         else (let s1 = s\<lparr>state := RECORDING, roundNumber := 0,
                          conversation := new_conversation,
                          conversationId := Suc (conversationId s),
                          currentRound := new_round, sessionStartTime := clock s\<rparr>;
                   s2 = startTranscription (send Show (emit [SetSessionActive True] s1));
                   k = nextCapture s2;
                   s3 = captureContext k (s2\<lparr>nextCapture := Suc k\<rparr>)
               in s3\<lparr>contextReady := Some k\<rparr>))"

subsection \<open>Events\<close>

datatype outcome =
    Settled
  | Rejected jsstring
  | WindowResult "window option"
  | ShotResult "jsstring option"
  | Reply jsstring "(nat \<times> nat) option"

datatype event =
    Trigger bool
  | CancelKey
  | CloseAction
  | ButtonClick jsstring
  | PartialEv jsstring
  | FinalEv jsstring
  | ErrorEv jsstring
  | Chunk nat jsstring
  | Resume nat outcome
  | Tick nat

text \<open>
  What the environment does: the trigger and cancel keys, the close action and the
  buttons of the overlay, the \<open>partial\<close>, \<open>final\<close> and \<open>error\<close> events of the
  transcription service, a streamed chunk for the pending AI call at an index of
  \<open>tasks\<close>, the settling of the operation a task awaits, the passing of time.
  \<open>resume_task\<close> runs the rest of a suspended handler on the outcome of the awaited
  operation; it is \<open>None\<close> when the outcome is not one the operation can have.
\<close>

fun resume_task :: "task \<Rightarrow> outcome \<Rightarrow> orch \<Rightarrow> orch option" where
  "resume_task (TWindow k) (WindowResult w) s = Some (window_settled k (Some w) s)"
| "resume_task (TWindow k) (Rejected m) s = Some (window_settled k None s)"
| "resume_task (TCapture k c) (ShotResult b) s = Some (capture_settled k c (Some b) s)"
| "resume_task (TCapture k c) (Rejected m) s = Some (capture_settled k c None s)"
| "resume_task (TFlash k) Settled s = Some (flash_settled k s)"
| "resume_task TStart Settled s = Some (start_settled None s)"
| "resume_task TStart (Rejected m) s = Some (start_settled (Some m) s)"
| "resume_task (TFinalizeStop r) Settled s = Some (finalize_after_stop r (stop_settled s))"
| "resume_task (TFinalizeStop r) (Rejected m) s = Some (finalize_after_stop r (stop_settled s))"
| "resume_task (TRespond ov fin) (Reply t u) s = Some (respond_finally fin (respond_ok ov t u s))"
| "resume_task (TRespond ov fin) (Rejected m) s =
     Some (respond_finally fin (respond_failed ov m s))"
| "resume_task TCancelStop Settled s = Some (cancel_after_stop (stop_settled s))"
| "resume_task TCancelStop (Rejected m) s = Some (cancel_after_stop (stop_settled s))"
| "resume_task TSaveStop Settled s = Some (save_after_stop (stop_settled s))"
| "resume_task TSaveStop (Rejected m) s = Some (save_after_stop (stop_settled s))"
| "resume_task TTimer Settled s = Some (timer_fired s)"
| "resume_task t out s = None"

definition on_chunk :: "task \<Rightarrow> jsstring \<Rightarrow> orch \<Rightarrow> orch" where
  "on_chunk t chunk s =
     (case t of
        TRespond ov fin \<Rightarrow>
          if state s \<noteq> CONVERSING then s
          else emit_if ov [Send (StreamChunk (replace_all eos_token True chunk))] s
      | _ \<Rightarrow> s)"

fun step :: "event \<Rightarrow> orch \<Rightarrow> orch" where
  "step (Trigger settingsOpen) s = onTriggerDown settingsOpen s"
| "step CancelKey s = onCancel s"
| "step CloseAction s = onClose s"
| "step (ButtonClick label) s = onButtonClick label s"
| "step (PartialEv text) s = (on_partial text ^^ listeners s) s"
| "step (FinalEv text) s = (on_final text ^^ listeners s) s"
| "step (ErrorEv m) s = (onServiceError (js ''Transcription error'') m ^^ listeners s) s"
| "step (Chunk i chunk) s = (if i < length (tasks s) then on_chunk (tasks s ! i) chunk s else s)"
| "step (Resume i out) s =
     (if i < length (tasks s)
      then (case resume_task (tasks s ! i) out
                   (s\<lparr>tasks := take i (tasks s) @ drop (Suc i) (tasks s)\<rparr>) of
              Some s' \<Rightarrow> s'
            | None \<Rightarrow> s)
      else s)"
| "step (Tick d) s = s\<lparr>clock := clock s + d\<rparr>"

definition run_events :: "event list \<Rightarrow> orch \<Rightarrow> orch" where
  "run_events evs s = fold step evs s"

text \<open>The number of calls of \<open>aiService.converse\<close> and of \<open>historyService.save\<close> so far.\<close>

fun is_converse :: "effect \<Rightarrow> bool" where
  "is_converse (AIConverse ms) = True"
| "is_converse e = False"

fun is_save :: "effect \<Rightarrow> bool" where
  "is_save (HistorySave h) = True"
| "is_save e = False"

definition ai_calls :: "orch \<Rightarrow> nat" where
  "ai_calls s = length (filter is_converse (trace s))"

definition history_saves :: "orch \<Rightarrow> nat" where
  "history_saves s = length (filter is_save (trace s))"

text \<open>An orchestrator constructed with every collaborator, in window capture mode.\<close>

definition all_deps :: deps where
  "all_deps =
     \<lparr>overlay = True, windowService = True, captureService = True, transcribeService = True,
      aiService = True, historyService = True, highlightService = True, highlightFlash = True,
      screenshotPreview = True, loadCredentials = False, windowMode = True\<rparr>"

text \<open>
  A session with one completed round: the trigger starts the session, the transcription
  starts, the window service and the capture service answer (no window, no image), the
  segment "hello" is finalized, the trigger ends the round, the transcription stops and
  the AI answers "ok".
\<close>

definition one_round :: orch where
  "one_round =
     run_events [Trigger False, Resume 0 Settled, Resume 0 (WindowResult None),
                 Resume 0 (ShotResult None), FinalEv (js ''hello''), Trigger False,
                 Resume 0 Settled, Resume 0 (Reply (js ''ok'') None)]
       (new_orch all_deps)"

section \<open>Facts about the matcher\<close>

lemmas re_defs = seqs_def alts_def lit_def rstar_def rplus_def ropt_def rstar_lazy_def
  rplus_lazy_def at_least_def space_def anything_def one_of_def none_of_def

lemmas str_defs = js_def isSpace_def isLineTerminator_def trim_def trimStart_def trimEnd_def

lemmas match_defs = canon_def adv_def step_if_def exec_def test_def capture_def

lemma js_append: "js (a @ b) = js a @ js b"
  by (simp add: js_def)

lemma lit_Nil: "lit [] = Eps"
  by (simp add: lit_def)

lemma lit_Cons: "lit (c # cs) = Seq (Chr (of_char c)) (lit cs)"
  by (simp add: lit_def)

text \<open>A match found at some position makes the search succeed.\<close>

lemma search_found:
  "run r ic \<lparr>mpos = p + length pre, mrest = rest, mcaps = []\<rparr> \<noteq> [] \<Longrightarrow>
   search r ic p (pre @ rest) \<noteq> None"
proof (induction pre arbitrary: p)
  case Nil
  then show ?case by (cases rest) (auto split: list.splits)
next
  case (Cons c pre)
  from Cons.prems have "search r ic (Suc p) (pre @ rest) \<noteq> None"
    by (intro Cons.IH) simp
  then show ?case by (auto split: list.splits)
qed

lemma test_found:
  assumes "s = pre @ rest"
    and "run r ic \<lparr>mpos = length pre, mrest = rest, mcaps = []\<rparr> \<noteq> []"
  shows "test r ic s"
  using search_found [of r ic 0 pre rest] assms by (simp add: test_def exec_def)

text \<open>A literal under the \<open>i\<close> flag consumes exactly a copy of itself up to case.\<close>

lemma run_lit_ci:
  "map canon w = map canon (js l) \<Longrightarrow>
   run (lit l) True \<lparr>mpos = p, mrest = w @ post, mcaps = cs\<rparr>
     = [\<lparr>mpos = p + length w, mrest = post, mcaps = cs\<rparr>]"
proof (induction l arbitrary: w p)
  case Nil
  then show ?case by (simp add: lit_Nil js_def)
next
  case (Cons c l)
  from Cons.prems obtain d v where w: "w = d # v" and d: "canon d = canon (of_char c)"
    and v: "map canon v = map canon (js l)"
    by (auto simp: js_def map_eq_Cons_conv)
  show ?case using Cons.IH [OF v, of "Suc p"] d
    by (simp add: w lit_Cons step_if_def adv_def)
qed

lemma ne_ropt: "run (ropt r) ic st \<noteq> []"
  by (simp add: ropt_def Let_def)

lemma split_ci:
  "map canon w = map canon (js (a @ b)) \<Longrightarrow>
   \<exists>u v. w = u @ v \<and> map canon u = map canon (js a) \<and> map canon v = map canon (js b)"
  by (rule exI [of _ "take (length a) w"], rule exI [of _ "drop (length a) w"])
     (simp add: js_def take_map [symmetric] drop_map [symmetric])

text \<open>Trimming keeps a phrase that neither starts nor ends with white space.\<close>

lemma canon_space: "canon c = canon d \<Longrightarrow> isSpace c = isSpace d"
  by (auto simp: canon_def isSpace_def split: if_splits)

lemma trimEnd_keeps:
  assumes "w \<noteq> []" "\<not> isSpace (last w)"
  shows "\<exists>post'. trimEnd (pre @ w @ post) = pre @ w @ post'"
proof -
  have "dropWhile isSpace (rev w @ rev pre) = rev w @ rev pre"
    using assms by (cases "rev w") (auto simp: last_rev [symmetric] simp del: last_rev)
  then have "dropWhile isSpace (rev post @ rev w @ rev pre) =
      (if \<forall>x\<in>set (rev post). isSpace x then [] else dropWhile isSpace (rev post))
        @ rev w @ rev pre"
    by (simp add: dropWhile_append)
  then show ?thesis
    by (simp add: trimEnd_def)
qed

lemma trimStart_keeps:
  assumes "w \<noteq> []" "\<not> isSpace (hd w)"
  shows "\<exists>pre'. trimStart (pre @ w @ post) = pre' @ w @ post"
proof -
  have "dropWhile isSpace (w @ post) = w @ post"
    using assms by (cases w) auto
  then have "dropWhile isSpace (pre @ w @ post) =
      (if \<forall>x\<in>set pre. isSpace x then [] else dropWhile isSpace pre) @ w @ post"
    by (simp add: dropWhile_append)
  then show ?thesis
    by (simp add: trimStart_def)
qed

lemma trim_keeps:
  assumes "w \<noteq> []" "\<not> isSpace (hd w)" "\<not> isSpace (last w)"
  shows "\<exists>pre' post'. trim (pre @ w @ post) = pre' @ w @ post'"
proof -
  from trimEnd_keeps [OF assms(1,3)] obtain post'
    where "trimEnd (pre @ w @ post) = pre @ w @ post'"
    by blast
  moreover from trimStart_keeps [OF assms(1,2)] obtain pre'
    where "trimStart (pre @ w @ post') = pre' @ w @ post'"
    by blast
  ultimately show ?thesis by (auto simp: trim_def)
qed

lemma ci_ends:
  assumes "map canon u = map canon (js w)" "w \<noteq> []"
    and "\<not> isSpace (of_char (hd w))" "\<not> isSpace (of_char (last w))"
  shows "u \<noteq> [] \<and> \<not> isSpace (hd u) \<and> \<not> isSpace (last u)"
proof -
  from assms(1,2) have ne: "u \<noteq> []" by (auto simp: js_def)
  have "canon (hd u) = canon (of_char (hd w))"
    using assms(1,2) ne by (cases u; cases w) (auto simp: js_def)
  moreover have "canon (last u) = canon (of_char (last w))"
  proof -
    have "last (map canon u) = last (map canon (js w))" using assms(1) by simp
    then show ?thesis using ne assms(2) by (simp add: last_map js_def)
  qed
  ultimately show ?thesis using ne assms(3,4) canon_space by blast
qed

section \<open>The hallucination filter\<close>

lemma contains_ciD:
  "contains_ci s w \<Longrightarrow> \<exists>pre u post. s = pre @ u @ post \<and> map canon u = map canon (js w)"
proof (induction s)
  case Nil
  then have "[] = [] @ [] @ ([]::jsstring) \<and> map canon [] = map canon (js w)"
    by (simp add: js_def)
  then show ?case by blast
next
  case (Cons c cs)
  show ?case
  proof (cases "map canon (take (length w) (c # cs)) = map canon (js w)")
    case True
    have "c # cs = [] @ take (length w) (c # cs) @ drop (length w) (c # cs)"
      by (simp only: append_take_drop_id append_Nil)
    with True show ?thesis by blast
  next
    case False
    with Cons.prems have "contains_ci cs w" by simp
    from Cons.IH [OF this] obtain pre u post
      where "cs = pre @ u @ post" "map canon u = map canon (js w)" by blast
    then have "c # cs = (c # pre) @ u @ post \<and> map canon u = map canon (js w)" by simp
    then show ?thesis by blast
  qed
qed

lemma contains_ciI:
  "map canon u = map canon (js w) \<Longrightarrow> contains_ci (pre @ u @ post) w"
proof (induction pre)
  case Nil
  from Nil have len: "length u = length w"
    by (metis length_map js_def)
  show ?case
  proof (cases "u @ post")
    case Nil
    with len show ?thesis by simp
  next
    case (Cons c cs)
    have "take (length w) (u @ post) = u" using len by simp
    with Cons Nil.prems show ?thesis by (simp del: take_append)
  qed
next
  case (Cons c pre)
  then show ?case by simp
qed

lemma hall_test:
  assumes "s = pre @ u @ post"
    and "run r True \<lparr>mpos = length pre, mrest = u @ post, mcaps = []\<rparr> \<noteq> []"
    and "(r, True) \<in> set HALLUCINATION_PATTERNS"
  shows "list_ex (\<lambda>(p, ic). test p ic s) HALLUCINATION_PATTERNS"
  using test_found [OF assms(1,2)] assms(3) unfolding list_ex_iff by blast

lemma pat_thank_you:
  assumes "map canon u = map canon (js ''thank you'')"
  shows "run (seqs [lit ''thank'', Grp 1 (Alt (lit ''s'') (lit '' you'')),
            ropt (Grp 2 (Seq (lit '' for '')
                   (Grp 3 (Alt (lit ''watching'') (lit ''listening'')))))]) True
           \<lparr>mpos = p, mrest = u @ post, mcaps = []\<rparr> \<noteq> []"
proof -
  from split_ci [of u "''thank''" "'' you''"] assms obtain a b where
    u: "u = a @ b" and a: "map canon a = map canon (js ''thank'')"
    and b: "map canon b = map canon (js '' you'')"
    by auto
  show ?thesis
    unfolding seqs_def u
    by (simp add: run_lit_ci [OF a] run_lit_ci [OF b] ne_ropt del: run.simps(9))
qed

lemma pat_thanks:
  assumes "map canon u = map canon (js ''thanks'')"
  shows "run (seqs [lit ''thank'', Grp 1 (Alt (lit ''s'') (lit '' you'')),
            ropt (Grp 2 (Seq (lit '' for '')
                   (Grp 3 (Alt (lit ''watching'') (lit ''listening'')))))]) True
           \<lparr>mpos = p, mrest = u @ post, mcaps = []\<rparr> \<noteq> []"
proof -
  from split_ci [of u "''thank''" "''s''"] assms obtain a b where
    u: "u = a @ b" and a: "map canon a = map canon (js ''thank'')"
    and b: "map canon b = map canon (js ''s'')"
    by auto
  show ?thesis
    unfolding seqs_def u
    by (simp add: run_lit_ci [OF a] run_lit_ci [OF b] ne_ropt del: run.simps(9))
qed

lemma pat_please:
  assumes "map canon u = map canon (js ''please like'')
         \<or> map canon u = map canon (js ''please subscribe'')"
  shows "run (seqs [lit ''please '', Grp 1 (Alt (lit ''like'') (lit ''subscribe''))]) True
           \<lparr>mpos = p, mrest = u @ post, mcaps = []\<rparr> \<noteq> []"
proof -
  from assms split_ci [of u "''please ''" "''like''"]
    split_ci [of u "''please ''" "''subscribe''"]
  obtain a b where
    u: "u = a @ b" and a: "map canon a = map canon (js ''please '')"
    and b: "map canon b = map canon (js ''like'') \<or> map canon b = map canon (js ''subscribe'')"
    by auto
  from b show ?thesis
    unfolding seqs_def u
    by (auto simp: run_lit_ci [OF a] run_lit_ci)
qed

lemma pat_bracket:
  assumes "map canon u = map canon (js ''[music]'')
         \<or> map canon u = map canon (js ''[applause]'')"
  shows "run (seqs [lit ''['', Grp 1 (Alt (lit ''music'') (lit ''applause'')), lit '']'']) True
           \<lparr>mpos = p, mrest = u @ post, mcaps = []\<rparr> \<noteq> []"
proof -
  from assms split_ci [of u "''[''" "''music]''"] split_ci [of u "''[''" "''applause]''"]
  obtain a b where
    u: "u = a @ b" and a: "map canon a = map canon (js ''['')"
    and b: "map canon b = map canon (js ''music]'') \<or> map canon b = map canon (js ''applause]'')"
    by auto
  from b split_ci [of b "''music''" "'']''"] split_ci [of b "''applause''" "'']''"]
  obtain c d where
    b': "b = c @ d" and d: "map canon d = map canon (js '']'')"
    and c: "map canon c = map canon (js ''music'') \<or> map canon c = map canon (js ''applause'')"
    by auto
  from c show ?thesis
    unfolding seqs_def u b'
    by (auto simp: run_lit_ci [OF a] run_lit_ci [OF d] run_lit_ci)
qed

lemma filler_matches:
  assumes "w \<in> set filler_phrases" "map canon u = map canon (js w)"
  shows "list_ex (\<lambda>(p, ic). test p ic (pre @ u @ post)) HALLUCINATION_PATTERNS"
proof -
  have "\<exists>r. (r, True) \<in> set HALLUCINATION_PATTERNS
      \<and> run r True \<lparr>mpos = length pre, mrest = u @ post, mcaps = []\<rparr> \<noteq> []"
    using assms pat_thank_you [of u "length pre" post] pat_thanks [of u "length pre" post]
      pat_please [of u "length pre" post] pat_bracket [of u "length pre" post]
    unfolding filler_phrases_def HALLUCINATION_PATTERNS_def
    by (auto simp only: set_simps insert_iff empty_iff)
  then show ?thesis using hall_test [of "pre @ u @ post" pre u post] by blast
qed

lemma filler_ends:
  assumes "w \<in> set filler_phrases" "map canon u = map canon (js w)"
  shows "u \<noteq> [] \<and> \<not> isSpace (hd u) \<and> \<not> isSpace (last u)"
proof (rule ci_ends [OF assms(2)])
  show "w \<noteq> []" using assms(1) by (auto simp: filler_phrases_def)
  show "\<not> isSpace (of_char (hd w))" using assms(1) by (auto simp: filler_phrases_def isSpace_def)
  show "\<not> isSpace (of_char (last w))" using assms(1) by (auto simp: filler_phrases_def isSpace_def)
qed

lemma contains_filler_trim:
  assumes "contains_filler s"
  shows "contains_filler (trim s) \<and> list_ex (\<lambda>(p, ic). test p ic (trim s)) HALLUCINATION_PATTERNS"
proof -
  from assms obtain w where w: "w \<in> set filler_phrases" and "contains_ci s w"
    unfolding contains_filler_def list_ex_iff by blast
  then obtain pre u post where s: "s = pre @ u @ post" and u: "map canon u = map canon (js w)"
    using contains_ciD by blast
  from filler_ends [OF w u] trim_keeps [of u pre post] obtain pre' post'
    where t: "trim s = pre' @ u @ post'" unfolding s by blast
  have "contains_ci (trim s) w" unfolding t by (rule contains_ciI [OF u])
  with w have "contains_filler (trim s)" unfolding contains_filler_def list_ex_iff by blast
  moreover have "list_ex (\<lambda>(p, ic). test p ic (trim s)) HALLUCINATION_PATTERNS"
    unfolding t by (rule filler_matches [OF w u])
  ultimately show ?thesis by blast
qed

lemma filler_isHallucination: "contains_filler s \<Longrightarrow> isHallucination s"
  using contains_filler_trim [of s] by (simp add: isHallucination_def)

lemma length_trim_le: "length (trim s) \<le> length s"
proof -
  have "length (dropWhile isSpace xs) \<le> length xs" for xs
    by (rule length_dropWhile_le)
  from this [of "rev (dropWhile isSpace (rev s))"] this [of "rev s"]
  show ?thesis by (simp add: trim_def trimStart_def trimEnd_def)
qed

lemma hall_short: "length (trim t) \<le> 1 \<Longrightarrow> isHallucination t"
  by (simp add: isHallucination_def)

lemma done_rejects:
  "isHallucination (trim (concat segs)) \<Longrightarrow>
   emitted (runInference_done (Inr segs) s) = emitted s"
  by (simp add: runInference_done_def Let_def)

lemma done_accepts:
  "trim (concat segs) \<noteq> [] \<Longrightarrow> \<not> isHallucination (trim (concat segs)) \<Longrightarrow>
   emitted (runInference_done (Inr segs) s) = emitted s @ [trim (concat segs)]"
  by (simp add: runInference_done_def Let_def)

lemmas hall_eval = isHallucination_def HALLUCINATION_PATTERNS_def re_defs str_defs match_defs

lemma hall_dot: "isHallucination (js ''.'')"
  by (simp add: hall_eval)

lemma hall_you: "isHallucination (js ''you'')"
  by (simp add: hall_eval)

lemma hall_watching: "isHallucination (js ''Thank you for watching!'')"
  by (simp add: hall_eval)

lemma hall_lights: "\<not> isHallucination (js ''turn off the lights'')"
  by (simp add: hall_eval)

lemma trim_dot: "trim (js ''.'') = js ''.''"
  by (simp add: str_defs)

lemma trim_you: "trim (js ''you'') = js ''you''"
  by (simp add: str_defs)

lemma trim_watching: "trim (js ''Thank you for watching!'') = js ''Thank you for watching!''"
  by (simp add: str_defs)

lemma trim_lights: "trim (js ''turn off the lights'') = js ''turn off the lights''"
  by (simp add: str_defs)

text \<open>
  C5. The filter rejects the outputs ".", "you" and "Thank you for watching!": each is
  classified as a hallucination and an inference pass that returns it emits no
  \<open>final\<close> event. Every output whose trimmed text has at most one character is
  rejected in the same way. The output "turn off the lights" is not classified as a
  hallucination, and a successful inference pass that returns it emits it as a
  \<open>final\<close> event.
\<close>

theorem hallucination_filter_examples:
  "isHallucination (js ''.'') \<and> isHallucination (js ''you'')
   \<and> isHallucination (js ''Thank you for watching!'')
   \<and> emitted (runInference_done (Inr [js ''.'']) s) = emitted s
   \<and> emitted (runInference_done (Inr [js ''you'']) s) = emitted s
   \<and> emitted (runInference_done (Inr [js ''Thank you for watching!'']) s) = emitted s
   \<and> (length (trim t) \<le> 1 \<longrightarrow>
        isHallucination t \<and> emitted (runInference_done (Inr [t]) s) = emitted s)
   \<and> \<not> isHallucination (js ''turn off the lights'')
   \<and> emitted (runInference_done (Inr [js ''turn off the lights'']) s)
        = emitted s @ [js ''turn off the lights'']"
proof (intro conjI impI)
  show "isHallucination (js ''.'')" by (rule hall_dot)
  show "isHallucination (js ''you'')" by (rule hall_you)
  show "isHallucination (js ''Thank you for watching!'')" by (rule hall_watching)
  show "emitted (runInference_done (Inr [js ''.'']) s) = emitted s"
    by (rule done_rejects) (simp add: trim_dot hall_dot)
  show "emitted (runInference_done (Inr [js ''you'']) s) = emitted s"
    by (rule done_rejects) (simp add: trim_you hall_you)
  show "emitted (runInference_done (Inr [js ''Thank you for watching!'']) s) = emitted s"
    by (rule done_rejects) (simp add: trim_watching hall_watching)
  show "\<not> isHallucination (js ''turn off the lights'')" by (rule hall_lights)
  show "emitted (runInference_done (Inr [js ''turn off the lights'']) s)
        = emitted s @ [js ''turn off the lights'']"
    using done_accepts [of "[js ''turn off the lights'']" s] hall_lights
    by (simp add: trim_lights) (simp add: js_def)
next
  assume short: "length (trim t) \<le> 1"
  then show "isHallucination t" by (rule hall_short)
  from short length_trim_le [of "trim t"] have "length (trim (trim t)) \<le> 1" by simp
  then have "isHallucination (trim t)" by (rule hall_short)
  then show "emitted (runInference_done (Inr [t]) s) = emitted s"
    using done_rejects [of "[t]" s] by simp
qed

theorem hallucination_filter_examples_witness:
  "length (trim (js ''a'')) \<le> 1 \<and> isHallucination (js ''a'')
   \<and> emitted (runInference_done (Inr [js ''a'']) new_whisper) = []
   \<and> emitted (runInference_done (Inr [js ''turn off the lights'']) new_whisper)
        = [js ''turn off the lights'']"
proof -
  have "length (trim (js ''a'')) \<le> 1" by (simp add: str_defs)
  with hallucination_filter_examples [of new_whisper "js ''a''"]
  show ?thesis by (simp add: new_whisper_def)
qed

text \<open>
  C10. Three of the patterns have no anchors and carry the \<open>i\<close> flag. Whenever the
  text returned by an inference pass contains "thank you", "thanks", "please like",
  "please subscribe", "[music]" or "[applause]" anywhere, in any letter case, whatever
  its length and the rest of its content, the text is classified as a hallucination and
  the pass emits no \<open>final\<close> event and leaves the priming text unchanged.
\<close>

theorem unanchored_filler_is_hallucination:
  assumes "contains_filler (concat segs)"
  shows "isHallucination (concat segs)
       \<and> emitted (runInference_done (Inr segs) s) = emitted s
       \<and> lastSegmentText (runInference_done (Inr segs) s) = lastSegmentText s"
proof -
  from assms have "contains_filler (trim (concat segs))"
    using contains_filler_trim by blast
  then have h: "isHallucination (trim (concat segs))"
    by (rule filler_isHallucination)
  from assms have "isHallucination (concat segs)"
    by (rule filler_isHallucination)
  moreover from h have "emitted (runInference_done (Inr segs) s) = emitted s"
    by (rule done_rejects)
  moreover from h have "lastSegmentText (runInference_done (Inr segs) s) = lastSegmentText s"
    by (simp add: runInference_done_def Let_def)
  ultimately show ?thesis by blast
qed

theorem unanchored_filler_is_hallucination_witness:
  "contains_filler (concat [js '' I want to thank you for the report, now turn off the lights''])
   \<and> isHallucination (js '' I want to thank you for the report, now turn off the lights'')
   \<and> emitted (runInference_done
        (Inr [js '' I want to thank you for the report, now turn off the lights'']) new_whisper) = []"
proof -
  have c: "contains_filler (concat [js '' I want to thank you for the report, now turn off the lights''])"
    by (simp add: contains_filler_def filler_phrases_def js_def canon_def)
  from unanchored_filler_is_hallucination [OF c, of new_whisper] c
  show ?thesis by (simp add: new_whisper_def)
qed

section \<open>The energy gate\<close>

text \<open>
  The comparison of the root mean square with the threshold, in integers: the sum of the
  squared samples against the number of samples.
\<close>

lemma loud_iff:
  "loud c \<longleftrightarrow> c \<noteq> [] \<and> 2 ^ 24 * int (length c) \<le> 625 * (\<Sum>k\<leftarrow>c. sint k * sint k)"
proof (cases "c = []")
  case True
  then show ?thesis by (simp add: loud_def rms_def)
next
  case False
  then have n: "0 < real (length c)" by simp
  have s: "sumSq c = real_of_int (\<Sum>k\<leftarrow>c. sint k * sint k) / 2 ^ 30"
    unfolding sumSq_def float32_def by (induction c) (auto simp: field_simps)
  have "loud c \<longleftrightarrow> 0.005 \<le> sqrt (sumSq c / real (length c))"
    using False by (simp add: loud_def rms_def SILENCE_RMS_THRESHOLD_def)
  also have "\<dots> \<longleftrightarrow> sqrt (0.005\<^sup>2) \<le> sqrt (sumSq c / real (length c))"
    by simp
  also have "\<dots> \<longleftrightarrow> 0.005\<^sup>2 \<le> sumSq c / real (length c)"
    by (rule real_sqrt_le_iff)
  also have "\<dots> \<longleftrightarrow> 0.005\<^sup>2 * real (length c) \<le> sumSq c"
    using n by (simp add: pos_le_divide_eq)
  also have "\<dots> \<longleftrightarrow> real_of_int (2 ^ 24 * int (length c))
                    \<le> real_of_int (625 * (\<Sum>k\<leftarrow>c. sint k * sint k))"
    unfolding s by (simp add: field_simps power2_eq_square)
  also have "\<dots> \<longleftrightarrow> 2 ^ 24 * int (length c) \<le> 625 * (\<Sum>k\<leftarrow>c. sint k * sint k)"
    by (rule of_int_le_iff)
  finally show ?thesis using False by simp
qed

lemma zeros_quiet: "\<not> loud (replicate n 0)"
proof -
  have "(\<Sum>k\<leftarrow>replicate n (0::16 word). sint k * sint k) = 0"
    by (induction n) auto
  then show ?thesis by (cases n) (auto simp: loud_iff)
qed

lemma send_stopped: "\<not> running s \<Longrightarrow> sendAudioChunk c s = s"
  by (simp add: sendAudioChunk_def)

lemma send_loud:
  "running s \<Longrightarrow> loud c \<Longrightarrow>
   sendAudioChunk c s = s\<lparr>speechCountdown := SPEECH_TAIL_CHUNKS, hasSpeechContent := True,
      pendingAudio := pendingAudio s @ [c], pendingSamples := pendingSamples s + length c\<rparr>"
  by (simp add: sendAudioChunk_def)

lemma send_tail:
  "running s \<Longrightarrow> \<not> loud c \<Longrightarrow> 0 < speechCountdown s \<Longrightarrow>
   sendAudioChunk c s = s\<lparr>speechCountdown := speechCountdown s - 1,
      pendingAudio := pendingAudio s @ [c], pendingSamples := pendingSamples s + length c\<rparr>"
  by (simp add: sendAudioChunk_def)

lemma send_silence:
  "\<not> loud c \<Longrightarrow> speechCountdown s = 0 \<Longrightarrow> sendAudioChunk c s = s"
  by (simp add: sendAudioChunk_def)

lemma tail_fold:
  "running s \<Longrightarrow> \<not> loud z \<Longrightarrow>
   pendingAudio (fold sendAudioChunk (replicate n z) s)
     = pendingAudio s @ replicate (min n (speechCountdown s)) z"
proof (induction n arbitrary: s)
  case 0
  then show ?case by simp
next
  case (Suc n)
  show ?case
  proof (cases "0 < speechCountdown s")
    case True
    let ?s' = "sendAudioChunk z s"
    have s': "?s' = s\<lparr>speechCountdown := speechCountdown s - 1,
      pendingAudio := pendingAudio s @ [z], pendingSamples := pendingSamples s + length z\<rparr>"
      using Suc.prems True by (rule send_tail)
    then have "running ?s'" using Suc.prems by simp
    from Suc.IH [OF this Suc.prems(2)]
    have "pendingAudio (fold sendAudioChunk (replicate n z) ?s')
        = pendingAudio s @ [z] @ replicate (min n (speechCountdown s - 1)) z"
      by (simp add: s')
    moreover have "min (Suc n) (speechCountdown s) = Suc (min n (speechCountdown s - 1))"
      using True by (cases "speechCountdown s") auto
    ultimately show ?thesis by simp
  next
    case False
    then have "sendAudioChunk z s = s" using Suc.prems by (simp add: send_silence)
    with Suc.IH [OF Suc.prems] False show ?thesis by simp
  qed
qed

text \<open>
  C4, as stated, for every chunk and every state of the provider: the chunk is appended
  exactly when it is loud or the countdown is positive. This fails when the provider is
  not running: \<open>sendAudioChunk\<close> returns at its first line and the loud chunk
  \<open>[16384]\<close> is not appended to the buffer of a provider that was never started.
\<close>

theorem energy_gate_counterexample:
  "loud [16384]
   \<and> pendingAudio (sendAudioChunk [16384] new_whisper) \<noteq> pendingAudio new_whisper @ [[16384]]"
  by (simp add: loud_iff sendAudioChunk_def new_whisper_def)

text \<open>
  C4, amended. A provider that is not running drops every chunk. While it is running, a
  chunk is appended to the pending buffer exactly when its root mean square is at or above
  the threshold or the trailing countdown is strictly positive. A loud chunk sets the
  countdown to 10, a kept quiet chunk lowers it by one, so that of \<open>n\<close> quiet chunks
  after a loud one the first 10 at most are kept. A chunk of zeros is quiet, and with
  the countdown at 0 it leaves the whole state as it was: nothing reaches the buffer
  that inference reads.
\<close>

theorem energy_gate_while_running:
  "(\<not> running s \<longrightarrow> sendAudioChunk c s = s)
   \<and> (running s \<longrightarrow>
        ((pendingAudio (sendAudioChunk c s) = pendingAudio s @ [c])
           \<longleftrightarrow> (loud c \<or> 0 < speechCountdown s))
      \<and> (loud c \<longrightarrow> speechCountdown (sendAudioChunk c s) = 10)
      \<and> (\<not> loud c \<and> 0 < speechCountdown s \<longrightarrow>
           speechCountdown (sendAudioChunk c s) = speechCountdown s - 1)
      \<and> (\<not> loud c \<and> speechCountdown s = 0 \<longrightarrow> sendAudioChunk c s = s)
      \<and> (loud c \<and> \<not> loud z \<longrightarrow>
           pendingAudio (fold sendAudioChunk (replicate n z) (sendAudioChunk c s))
             = pendingAudio s @ [c] @ replicate (min n 10) z)
      \<and> \<not> loud (replicate k 0)
      \<and> (speechCountdown s = 0 \<longrightarrow> sendAudioChunk (replicate k 0) s = s))"
proof (intro conjI impI)
  assume "\<not> running s"
  then show "sendAudioChunk c s = s" by (rule send_stopped)
next
  assume r: "running s"
  show "(pendingAudio (sendAudioChunk c s) = pendingAudio s @ [c])
           \<longleftrightarrow> (loud c \<or> 0 < speechCountdown s)"
    using r by (simp add: sendAudioChunk_def)
  show "\<not> loud (replicate k 0)" by (rule zeros_quiet)
  show "sendAudioChunk (replicate k 0) s = s" if "speechCountdown s = 0"
    using that zeros_quiet by (simp add: send_silence)
  show "speechCountdown (sendAudioChunk c s) = 10" if "loud c"
    using r that by (simp add: send_loud SPEECH_TAIL_CHUNKS_def)
  show "speechCountdown (sendAudioChunk c s) = speechCountdown s - 1"
    if "\<not> loud c \<and> 0 < speechCountdown s"
    using r that by (simp add: send_tail)
  show "sendAudioChunk c s = s" if "\<not> loud c \<and> speechCountdown s = 0"
    using that by (simp add: send_silence)
  show "pendingAudio (fold sendAudioChunk (replicate n z) (sendAudioChunk c s))
             = pendingAudio s @ [c] @ replicate (min n 10) z" if "loud c \<and> \<not> loud z"
  proof -
    let ?s' = "sendAudioChunk c s"
    have s': "?s' = s\<lparr>speechCountdown := SPEECH_TAIL_CHUNKS, hasSpeechContent := True,
      pendingAudio := pendingAudio s @ [c], pendingSamples := pendingSamples s + length c\<rparr>"
      using r that by (simp add: send_loud)
    then have "running ?s'" using r by simp
    from tail_fold [OF this, of z n] that show ?thesis
      by (simp add: s' SPEECH_TAIL_CHUNKS_def)
  qed
qed

theorem energy_gate_while_running_witness:
  "\<not> running new_whisper \<and> sendAudioChunk [16384] new_whisper = new_whisper
   \<and> running (new_whisper\<lparr>running := True\<rparr>) \<and> loud [16384] \<and> \<not> loud [0, 0]
   \<and> speechCountdown (new_whisper\<lparr>running := True\<rparr>) = 0
   \<and> sendAudioChunk [0, 0] (new_whisper\<lparr>running := True\<rparr>) = new_whisper\<lparr>running := True\<rparr>
   \<and> pendingAudio (fold sendAudioChunk (replicate 12 [0, 0])
        (sendAudioChunk [16384] (new_whisper\<lparr>running := True\<rparr>)))
      = [16384] # replicate 10 [0, 0]"
proof -
  have l: "loud [16384]" and q: "\<not> loud [0, 0]"
    by (simp_all add: loud_iff)
  from energy_gate_while_running [of new_whisper "[16384]" "[0, 0]" 12 2]
    energy_gate_while_running [of "new_whisper\<lparr>running := True\<rparr>" "[16384]" "[0, 0]" 12 2]
    energy_gate_while_running [of "new_whisper\<lparr>running := True\<rparr>" "[0, 0]" "[0, 0]" 12 2]
    l q
  show ?thesis by (simp add: new_whisper_def)
qed

section \<open>Parsing the buttons\<close>

lemmas pb_defs = parseButtons_def buttons_tag_def quotes_def bracket_lines_def bracket_row_def
  bracket_label_def list_marker_def spaces_def end_punct_def buttons_fragment_def
  strip_marker_def matchAll_def replace_first_def replace_all_def split_re_def
  slice_last_def slice_but_last_def nl_def dq_def

text \<open>
  C6. A response that ends in a complete tag, the line "Here's the fix." followed by
  the line \<open>[BUTTONS: "More detail", "Simpler"]\<close>, gives the content
  "Here's the fix." and the buttons "More detail" and "Simpler". A response that ends
  in a tag cut off before its closing bracket, "Partial answer" followed by the line
  \<open>[BUTTONS: "One\<close>, gives the content "Partial answer" and no buttons.
\<close>

theorem parseButtons_tag_examples:
  "parseButtons (js ''Here's the fix.'' @ nl @ js ''[BUTTONS: '' @ dq @ js ''More detail'' @ dq
                   @ js '', '' @ dq @ js ''Simpler'' @ dq @ js '']'')
     = \<lparr>content = js ''Here's the fix.'', buttons = [js ''More detail'', js ''Simpler'']\<rparr>
   \<and> parseButtons (js ''Partial answer'' @ nl @ js ''[BUTTONS: '' @ dq @ js ''One'')
     = \<lparr>content = js ''Partial answer'', buttons = []\<rparr>"
proof
  show "parseButtons (js ''Here's the fix.'' @ nl @ js ''[BUTTONS: '' @ dq @ js ''More detail'' @ dq
                   @ js '', '' @ dq @ js ''Simpler'' @ dq @ js '']'')
     = \<lparr>content = js ''Here's the fix.'', buttons = [js ''More detail'', js ''Simpler'']\<rparr>"
    by (simp add: pb_defs re_defs str_defs match_defs Let_def)
  show "parseButtons (js ''Partial answer'' @ nl @ js ''[BUTTONS: '' @ dq @ js ''One'')
     = \<lparr>content = js ''Partial answer'', buttons = []\<rparr>"
    by (simp add: pb_defs re_defs str_defs match_defs Let_def)
qed

text \<open>
  C7, as stated: the three lines "Explanation text", "More detail", "Simpler version"
  give the content "Explanation text" and the buttons "More detail" and "Simpler
  version". The code returns something else: the loop counts all three lines as bare,
  nothing would remain as content, and the guard on a non-empty remainder refuses the
  extraction.
\<close>

theorem parseButtons_bare_counterexample:
  "parseButtons (js ''Explanation text'' @ nl @ js ''More detail'' @ nl @ js ''Simpler version'')
     \<noteq> \<lparr>content = js ''Explanation text'',
         buttons = [js ''More detail'', js ''Simpler version'']\<rparr>"
  by (simp add: pb_defs re_defs str_defs match_defs Let_def)

subsection \<open>A text without an opening bracket\<close>

text \<open>
  Each of the three patterns that look for buttons, and the pattern of the cut-off tag,
  has to read the character \<open>[\<close>, so none of them matches in a text that has none.
\<close>

lemma canon_91: "canon c = canon 91 \<longleftrightarrow> c = 91"
  by (auto simp: canon_def)

lemma dead_bracket:
  "91 \<notin> set (mrest st) \<Longrightarrow> run (Chr 91) ic st = []"
  by (cases "mrest st") (auto simp: step_if_def canon_91)

lemma dead_Seq1: "run a ic st = [] \<Longrightarrow> run (Seq a b) ic st = []"
  by simp

lemma dead_Seq2: "(\<And>st'. st' \<in> set (run a ic st) \<Longrightarrow> run b ic st' = []) \<Longrightarrow> run (Seq a b) ic st = []"
  by simp

lemma dead_Grp: "run r ic st = [] \<Longrightarrow> run (Grp k r) ic st = []"
  by simp

lemma dead_rep: "0 < mn \<Longrightarrow> f st = [] \<Longrightarrow> rep k mn None g f st = []"
  by (cases k) (auto simp: Let_def)

lemma step_if_rest: "st' \<in> set (step_if p st) \<Longrightarrow> set (mrest st') \<subseteq> set (mrest st)"
  by (cases "mrest st") (auto simp: step_if_def adv_def split: if_splits)

lemma rep_rest:
  assumes "\<And>st st'. st' \<in> set (f st) \<Longrightarrow> set (mrest st') \<subseteq> set (mrest st)"
  shows "st' \<in> set (rep k mn mx g f st) \<Longrightarrow> set (mrest st') \<subseteq> set (mrest st)"
proof (induction k arbitrary: st mn mx st')
  case 0
  then show ?case by (auto split: if_splits)
next
  case (Suc k)
  show ?case
  proof (cases "st' = st")
    case True
    then show ?thesis by simp
  next
    case False
    with Suc.prems obtain m where m: "m \<in> set (f st)"
      and s: "st' \<in> set (rep k (mn - 1) (map_option (\<lambda>m. m - 1) mx) g f m)"
      by (auto simp: Let_def split: if_splits)
    from Suc.IH [OF s] assms [OF m] show ?thesis by blast
  qed
qed

lemma run_rest: "st' \<in> set (run r ic st) \<Longrightarrow> set (mrest st') \<subseteq> set (mrest st)"
proof (induction r arbitrary: st st')
  case (Seq a b)
  then show ?case by (auto dest!: Seq.IH) 
next
  case (Rep mn mx g r)
  have f: "\<And>a b. b \<in> set (run r ic a) \<Longrightarrow> set (mrest b) \<subseteq> set (mrest a)"
    by (rule Rep.IH)
  from Rep.prems have "st' \<in> set (rep (Suc (length (mrest st) + mn)) mn mx g (run r ic) st)"
    by simp
  with f show ?case
    by (rule rep_rest)
next
  case (Alt a b)
  from Alt.prems have "st' \<in> set (run a ic st) \<or> st' \<in> set (run b ic st)"
    by simp
  then show ?case using Alt.IH by blast
next
  case (Grp k r)
  from Grp.prems obtain m where "m \<in> set (run r ic st)" "mrest st' = mrest m"
    by auto
  then show ?case using Grp.IH by simp
qed (auto dest: step_if_rest split: if_splits)

lemma count_bare_Cons:
  "count_bare (l # ls) n = (if n < 4 then if bare_line l then count_bare ls (Suc n) else n else n)"
  by (simp add: bare_line_def Let_def)

lemma count_bare_full: "4 \<le> n \<Longrightarrow> count_bare ls n = n"
  by (cases ls) (simp_all add: count_bare_Cons del: count_bare.simps(2))

lemma count_bare_run:
  "\<forall>l\<in>set ls. bare_line l \<Longrightarrow> length ls + n \<le> 4
   \<Longrightarrow> rest = [] \<or> \<not> bare_line (hd rest) \<or> length ls + n = 4
   \<Longrightarrow> count_bare (ls @ rest) n = n + length ls"
proof (induction ls arbitrary: n)
  case Nil
  then show ?case by (cases rest) (auto simp: count_bare_Cons simp del: count_bare.simps(2))
next
  case (Cons l ls)
  from Cons.prems have "count_bare (ls @ rest) (Suc n) = Suc n + length ls"
    by (intro Cons.IH) auto
  with Cons.prems show ?case by (simp add: count_bare_Cons del: count_bare.simps(2))
qed

lemma bare_line_strip: "bare_line l \<Longrightarrow> strip_marker l \<noteq> []"
  by (simp add: bare_line_def Let_def)

lemma split_chr_ne: "split_chr d s \<noteq> []"
  by (induction s) (auto split: list.splits)


lemma dead_after:
  assumes "\<And>st'. 91 \<notin> set (mrest st') \<Longrightarrow> run b ic st' = []" "91 \<notin> set (mrest st)"
  shows "run (Seq a b) ic st = []"
proof (rule dead_Seq2)
  fix st' assume "st' \<in> set (run a ic st)"
  then have "set (mrest st') \<subseteq> set (mrest st)" by (rule run_rest)
  with assms(2) have "91 \<notin> set (mrest st')" by blast
  then show "run b ic st' = []" by (rule assms(1))
qed

lemma dead_lit_bracket:
  "91 \<notin> set (mrest st) \<Longrightarrow> run (Seq (lit (CHR ''['' # w)) r) ic st = []"
proof -
  assume a: "91 \<notin> set (mrest st)"
  have "run (lit (CHR ''['' # w)) ic st = []"
    using dead_bracket [OF a, of ic] by (simp add: lit_Cons)
  then show ?thesis by simp
qed

lemma dead_buttons_tag: "91 \<notin> set (mrest st) \<Longrightarrow> run buttons_tag ic st = []"
  unfolding buttons_tag_def seqs_def foldr.simps o_apply by (rule dead_lit_bracket)

lemma dead_buttons_fragment: "91 \<notin> set (mrest st) \<Longrightarrow> run buttons_fragment ic st = []"
  unfolding buttons_fragment_def seqs_def foldr.simps o_apply by (rule dead_lit_bracket)

lemma dead_bracket_lines: "91 \<notin> set (mrest st) \<Longrightarrow> run bracket_lines ic st = []"
proof -
  assume a: "91 \<notin> set (mrest st)"
  let ?tail = "Seq (rplus (Cls True [CChr 93, CChr 10])) (Seq (lit '']'') Eps)"
  let ?body = "Seq (Chr 10) (Seq (rstar space) (Seq (lit ''['') ?tail))"
  have "run ?body ic st = []"
    by (rule dead_after [OF _ a], rule dead_after, rule dead_lit_bracket)
  then have "run (Rep 2 None True (Grp 1 ?body)) ic st = []"
    by (simp only: run.simps dead_rep [of 2] list.map zero_less_numeral)
  then show ?thesis
    unfolding bracket_lines_def seqs_def at_least_def
    by (simp only: foldr.simps o_apply id_apply dead_Seq1)
qed

lemma dead_bracket_row: "91 \<notin> set (mrest st) \<Longrightarrow> run bracket_row ic st = []"
proof -
  assume a: "91 \<notin> set (mrest st)"
  let ?body = "Seq (lit ''['') (Seq (rplus (Cls True [CChr 93, CChr 10]))
                 (Seq (lit '']'') (Seq (rstar space) Eps)))"
  let ?rest = "Seq (rstar space) (Seq Eol Eps)"
  have r: "run (Seq (Rep 2 None True (Grp 1 ?body)) ?rest) ic st' = []"
    if "91 \<notin> set (mrest st')" for st'
  proof -
    have "run ?body ic st' = []" using that by (rule dead_lit_bracket)
    then have "run (Rep 2 None True (Grp 1 ?body)) ic st' = []"
      by (simp only: run.simps dead_rep [of 2] list.map zero_less_numeral)
    then show ?thesis by (rule dead_Seq1)
  qed
  have "run (Seq (ropt (Chr 10)) (Seq (rstar space) (Seq (Rep 2 None True (Grp 1 ?body)) ?rest))) ic st = []"
    by (rule dead_after [OF _ a], rule dead_after, rule r)
  then show ?thesis
    unfolding bracket_row_def seqs_def at_least_def
    by (simp only: foldr.simps o_apply id_apply)
qed

lemma search_dead:
  assumes "\<And>st. 91 \<notin> set (mrest st) \<Longrightarrow> run r ic st = []"
  shows "91 \<notin> set s \<Longrightarrow> search r ic p s = None"
proof (induction s arbitrary: p)
  case Nil
  then show ?case using assms [of "\<lparr>mpos = p, mrest = [], mcaps = []\<rparr>"] by simp
next
  case (Cons c cs)
  then show ?case using assms [of "\<lparr>mpos = p, mrest = c # cs, mcaps = []\<rparr>"] by simp
qed

lemma no_bracket_exec:
  assumes "91 \<notin> set s"
  shows "exec buttons_tag ic s = None" "exec bracket_lines ic s = None"
    "exec bracket_row ic s = None" "exec buttons_fragment ic s = None"
  using assms
  by (simp_all add: exec_def search_dead dead_buttons_tag dead_bracket_lines dead_bracket_row
      dead_buttons_fragment)

subsection \<open>The run of bare lines\<close>

text \<open>
  C7, amended. Take a text without the character \<open>[\<close> whose lines, once the white
  space at its end is removed, are the lines \<open>pre\<close> followed by two to four bare
  lines \<open>labels\<close> (each, trimmed and without its list marker, not empty, of at most 5
  words and not ending in \<open>. ! ? : ;\<close>), where \<open>labels\<close> is the whole run the loop
  takes: no line comes before it, or the line before it is not bare, or it has four
  lines already. If the text before the run is not blank, it is, trimmed, the content,
  and the lines of the run, trimmed and without their list markers, are the buttons.
  If it is blank, nothing is extracted: the content is the whole text and there are no
  buttons. So the three lines "Explanation text", "More detail", "Simpler version",
  which are all bare, give the whole text and no buttons.
\<close>

theorem parseButtons_bare_lines:
  assumes nb: "91 \<notin> set text"
    and sp: "split_chr 10 (trimEnd text) = pre @ labels"
    and l2: "2 \<le> length labels" and l4: "length labels \<le> 4"
    and bl: "\<forall>l\<in>set labels. bare_line l"
    and mx: "pre = [] \<or> \<not> bare_line (last pre) \<or> length labels = 4"
  shows "parseButtons text =
           (if trim (join nl pre) \<noteq> []
            then \<lparr>content = trim (join nl pre), buttons = map strip_marker labels\<rparr>
            else \<lparr>content = text, buttons = []\<rparr>)"
proof -
  have ne: "text \<noteq> []"
  proof
    assume "text = []"
    with sp have "pre @ labels = [[]]" by (simp add: trimEnd_def)
    then have "length (pre @ labels) = 1" by simp
    with l2 show False by simp
  qed
  have mx': "rev pre = [] \<or> \<not> bare_line (hd (rev pre)) \<or> length (rev labels) + 0 = 4"
    using mx by (cases "pre = []") (simp_all add: hd_rev)
  have "count_bare (rev labels @ rev pre) 0 = 0 + length (rev labels)"
    by (rule count_bare_run [OF _ _ mx']) (use bl l4 in simp_all)
  then have cnt: "count_bare (rev labels @ rev pre) 0 = length labels"
    by simp
  have fl: "filter (\<lambda>s. s \<noteq> []) (map strip_marker labels) = map strip_marker labels"
    using bl by (induction labels) (simp_all add: bare_line_strip)
  have rf: "replace_first buttons_fragment True text = text"
    by (simp add: replace_first_def no_bracket_exec [OF nb])
  show ?thesis
    unfolding parseButtons_def
    by (simp add: ne no_bracket_exec [OF nb] sp cnt l2 fl rf slice_last_def slice_but_last_def Let_def
        del: count_bare.simps)
qed

theorem parseButtons_bare_lines_witness:
  "91 \<notin> set (js ''Explanation text.'' @ nl @ js ''More detail'' @ nl @ js ''Simpler version'')
   \<and> split_chr 10 (trimEnd (js ''Explanation text.'' @ nl @ js ''More detail'' @ nl
                                @ js ''Simpler version''))
       = [js ''Explanation text.''] @ [js ''More detail'', js ''Simpler version'']
   \<and> bare_line (js ''More detail'') \<and> bare_line (js ''Simpler version'')
   \<and> \<not> bare_line (last [js ''Explanation text.''])
   \<and> parseButtons (js ''Explanation text.'' @ nl @ js ''More detail'' @ nl @ js ''Simpler version'')
       = \<lparr>content = js ''Explanation text.'',
          buttons = [js ''More detail'', js ''Simpler version'']\<rparr>
   \<and> 91 \<notin> set (js ''Explanation text'' @ nl @ js ''More detail'' @ nl @ js ''Simpler version'')
   \<and> split_chr 10 (trimEnd (js ''Explanation text'' @ nl @ js ''More detail'' @ nl
                                @ js ''Simpler version''))
       = [] @ [js ''Explanation text'', js ''More detail'', js ''Simpler version'']
   \<and> bare_line (js ''Explanation text'')
   \<and> parseButtons (js ''Explanation text'' @ nl @ js ''More detail'' @ nl @ js ''Simpler version'')
       = \<lparr>content = js ''Explanation text'' @ nl @ js ''More detail'' @ nl @ js ''Simpler version'',
          buttons = []\<rparr>
   \<and> 91 \<notin> set (js ''All done!'' @ nl @ js ''One'' @ nl @ js ''Two'' @ nl @ js ''Three'' @ nl
                     @ js ''Four'' @ nl @ js ''Five'')
   \<and> split_chr 10 (trimEnd (js ''All done!'' @ nl @ js ''One'' @ nl @ js ''Two'' @ nl @ js ''Three''
                                @ nl @ js ''Four'' @ nl @ js ''Five''))
       = [js ''All done!'', js ''One''] @ [js ''Two'', js ''Three'', js ''Four'', js ''Five'']
   \<and> bare_line (js ''Two'') \<and> bare_line (js ''Three'') \<and> bare_line (js ''Four'')
   \<and> bare_line (js ''Five'')
   \<and> parseButtons (js ''All done!'' @ nl @ js ''One'' @ nl @ js ''Two'' @ nl @ js ''Three'' @ nl
                      @ js ''Four'' @ nl @ js ''Five'')
       = \<lparr>content = js ''All done!'' @ nl @ js ''One'',
          buttons = [js ''Two'', js ''Three'', js ''Four'', js ''Five'']\<rparr>"
proof -
  let ?a = "js ''Explanation text.'' @ nl @ js ''More detail'' @ nl @ js ''Simpler version''"
  let ?b = "js ''Explanation text'' @ nl @ js ''More detail'' @ nl @ js ''Simpler version''"
  let ?c = "js ''All done!'' @ nl @ js ''One'' @ nl @ js ''Two'' @ nl @ js ''Three'' @ nl
              @ js ''Four'' @ nl @ js ''Five''"
  have a1: "91 \<notin> set ?a"
    by (simp add: js_def nl_def)
  have a2: "split_chr 10 (trimEnd ?a)
              = [js ''Explanation text.''] @ [js ''More detail'', js ''Simpler version'']"
    by (simp add: str_defs nl_def)
  have a3: "bare_line (js ''More detail'')" "bare_line (js ''Simpler version'')"
    by (simp_all add: bare_line_def pb_defs re_defs str_defs match_defs Let_def)
  have a4: "\<not> bare_line (last [js ''Explanation text.''])"
    by (simp add: bare_line_def pb_defs re_defs str_defs match_defs Let_def)
  have a5: "trim (js ''Explanation text.'') = js ''Explanation text.''"
    "js ''Explanation text.'' \<noteq> []"
    by (simp_all add: str_defs)
  have a6: "strip_marker (js ''More detail'') = js ''More detail''"
    "strip_marker (js ''Simpler version'') = js ''Simpler version''"
    by (simp_all add: pb_defs re_defs str_defs match_defs Let_def)
  have b1: "91 \<notin> set ?b"
    by (simp add: js_def nl_def)
  have b2: "split_chr 10 (trimEnd ?b)
              = [] @ [js ''Explanation text'', js ''More detail'', js ''Simpler version'']"
    by (simp add: str_defs nl_def)
  have b3: "bare_line (js ''Explanation text'')"
    by (simp add: bare_line_def pb_defs re_defs str_defs match_defs Let_def)
  have c1: "91 \<notin> set ?c"
    by (simp add: js_def nl_def)
  have c2: "split_chr 10 (trimEnd ?c)
              = [js ''All done!'', js ''One''] @ [js ''Two'', js ''Three'', js ''Four'', js ''Five'']"
    by (simp add: str_defs nl_def)
  have c3: "bare_line (js ''Two'')" "bare_line (js ''Three'')" "bare_line (js ''Four'')"
    "bare_line (js ''Five'')"
    by (simp_all add: bare_line_def pb_defs re_defs str_defs match_defs Let_def)
  have c4: "\<forall>l\<in>set [js ''Two'', js ''Three'', js ''Four'', js ''Five'']. bare_line l"
    using c3 by simp
  have c5: "trim (join nl [js ''All done!'', js ''One'']) = js ''All done!'' @ nl @ js ''One''"
    by (simp add: str_defs nl_def)
  have c6: "map strip_marker [js ''Two'', js ''Three'', js ''Four'', js ''Five'']
              = [js ''Two'', js ''Three'', js ''Four'', js ''Five'']"
    by (simp add: pb_defs re_defs str_defs match_defs Let_def)
  have c7: "js ''All done!'' @ nl @ js ''One'' \<noteq> []"
    by (simp add: nl_def)
  have a: "parseButtons ?a = \<lparr>content = js ''Explanation text.'',
                               buttons = [js ''More detail'', js ''Simpler version'']\<rparr>"
    using parseButtons_bare_lines [OF a1 a2] a3 a4 by (simp add: a5 a6)
  have b: "parseButtons ?b = \<lparr>content = ?b, buttons = []\<rparr>"
    using parseButtons_bare_lines [OF b1 b2] a3 b3
    by (simp add: trim_def trimStart_def trimEnd_def)
  have "parseButtons ?c =
          (if trim (join nl [js ''All done!'', js ''One'']) \<noteq> []
           then \<lparr>content = trim (join nl [js ''All done!'', js ''One'']),
                  buttons = map strip_marker [js ''Two'', js ''Three'', js ''Four'', js ''Five'']\<rparr>
           else \<lparr>content = ?c, buttons = []\<rparr>)"
    by (rule parseButtons_bare_lines [OF c1 c2 _ _ c4]) simp_all
  then have c: "parseButtons ?c = \<lparr>content = js ''All done!'' @ nl @ js ''One'',
                               buttons = [js ''Two'', js ''Three'', js ''Four'', js ''Five'']\<rparr>"
    unfolding c5 c6 using c7 by (simp only: if_True not_False_eq_True)
  from a1 a2 a3 a4 a b1 b2 b3 b c1 c2 c3 c show ?thesis by blast
qed

section \<open>Switching the provider\<close>

lemmas reg_defs = ai_converse_def ai_getProvider_def ai_invalidateClient_def
  transcribe_start_def transcribe_getProvider_def new_registry_def
  AI_PROVIDERS_def TRANSCRIBE_PROVIDERS_def className_def endsWith_def lookup_def
  inherited_def index_keys_def index_key_def

text \<open>
  C9. The AI registry is first used with the provider \<open>local\<close>, whose
  \<open>invalidateClient\<close> unloads the model; the configured id then changes to
  \<open>openai\<close> and \<open>converse\<close> is called again. A fresh \<open>OpenAIProvider\<close> is
  constructed and used, and nothing at all is invoked on the old instance 0: no
  teardown precedes the first use of the new provider. The transcription registry, on
  the same kind of switch, removes the listeners of the old instance before it
  constructs the new one.
\<close>

theorem ai_switch_skips_teardown:
  "ai_converse ''openai'' (snd (ai_converse ''local'' new_registry))
     = (Inr 1, \<lparr>provider = Some 1, providerType = Some ''openai'', fresh = 2,
                hooks = [Constructed ''LocalProvider'' 0, Converse 0,
                         Constructed ''OpenAIProvider'' 1, Converse 1]\<rparr>)
   \<and> transcribe_start ''deepgram'' (snd (transcribe_start ''whisper'' new_registry))
     = (Inr 1, \<lparr>provider = Some 1, providerType = Some ''deepgram'', fresh = 2,
                hooks = [Constructed ''WhisperLocalProvider'' 0, WireEvents 0, Start 0,
                         RemoveAllListeners 0,
                         Constructed ''DeepgramProvider'' 1, WireEvents 1, Start 1]\<rparr>)"
  by (simp add: reg_defs)

section \<open>Facts about the orchestrator\<close>

text \<open>What the elementary steps leave unchanged.\<close>

lemma emit_fields [simp]:
  "env (emit es s) = env s" "state (emit es s) = state s"
  "conversation (emit es s) = conversation s" "conversationId (emit es s) = conversationId s"
  "currentRound (emit es s) = currentRound s" "roundNumber (emit es s) = roundNumber s"
  "sessionStartTime (emit es s) = sessionStartTime s" "contextReady (emit es s) = contextReady s"
  "aiInFlight (emit es s) = aiInFlight s" "finalizing (emit es s) = finalizing s"
  "listeners (emit es s) = listeners s" "nextCapture (emit es s) = nextCapture s"
  "settled (emit es s) = settled s" "clock (emit es s) = clock s"
  "tasks (emit es s) = tasks s" "trace (emit es s) = trace s @ es"
  by (simp_all add: emit_def)

lemma emit_if_fields [simp]:
  "env (emit_if b es s) = env s" "state (emit_if b es s) = state s"
  "conversation (emit_if b es s) = conversation s" "conversationId (emit_if b es s) = conversationId s"
  "currentRound (emit_if b es s) = currentRound s" "roundNumber (emit_if b es s) = roundNumber s"
  "sessionStartTime (emit_if b es s) = sessionStartTime s" "contextReady (emit_if b es s) = contextReady s"
  "aiInFlight (emit_if b es s) = aiInFlight s" "finalizing (emit_if b es s) = finalizing s"
  "listeners (emit_if b es s) = listeners s" "nextCapture (emit_if b es s) = nextCapture s"
  "settled (emit_if b es s) = settled s" "clock (emit_if b es s) = clock s"
  "tasks (emit_if b es s) = tasks s" "trace (emit_if b es s) = trace s @ (if b then es else [])"
  by (simp_all add: emit_if_def)

lemma send_fields [simp]:
  "env (send e s) = env s" "state (send e s) = state s"
  "conversation (send e s) = conversation s" "conversationId (send e s) = conversationId s"
  "currentRound (send e s) = currentRound s" "roundNumber (send e s) = roundNumber s"
  "sessionStartTime (send e s) = sessionStartTime s" "contextReady (send e s) = contextReady s"
  "aiInFlight (send e s) = aiInFlight s" "finalizing (send e s) = finalizing s"
  "listeners (send e s) = listeners s" "nextCapture (send e s) = nextCapture s"
  "settled (send e s) = settled s" "clock (send e s) = clock s"
  "tasks (send e s) = tasks s" "trace (send e s) = trace s @ (if overlay (env s) then [Send e] else [])"
  by (simp_all add: send_def)

lemma spawn_fields [simp]:
  "env (spawn t s) = env s" "state (spawn t s) = state s"
  "conversation (spawn t s) = conversation s" "conversationId (spawn t s) = conversationId s"
  "currentRound (spawn t s) = currentRound s" "roundNumber (spawn t s) = roundNumber s"
  "sessionStartTime (spawn t s) = sessionStartTime s" "contextReady (spawn t s) = contextReady s"
  "aiInFlight (spawn t s) = aiInFlight s" "finalizing (spawn t s) = finalizing s"
  "listeners (spawn t s) = listeners s" "nextCapture (spawn t s) = nextCapture s"
  "settled (spawn t s) = settled s" "clock (spawn t s) = clock s"
  "tasks (spawn t s) = tasks s @ [t]" "trace (spawn t s) = trace s"
  by (simp_all add: spawn_def)

lemma push_fields [simp]:
  "env (push_message m s) = env s" "state (push_message m s) = state s"
  "messages (conversation (push_message m s)) = messages (conversation s) @ [m]"
  "currentRound (push_message m s) = currentRound s" "roundNumber (push_message m s) = roundNumber s"
  "contextReady (push_message m s) = contextReady s"
  "aiInFlight (push_message m s) = aiInFlight s" "finalizing (push_message m s) = finalizing s"
  "tasks (push_message m s) = tasks s" "trace (push_message m s) = trace s"
  by (simp_all add: push_message_def)

lemma trigger_ignored:
  "state s = CONVERSING \<Longrightarrow> aiInFlight s \<or> finalizing s \<Longrightarrow>
   onTriggerDown b s = emit_if b [HideSettings] s"
  by (simp add: onTriggerDown_def Let_def)

lemma emit_if_emit: "emit_if b es s = emit (if b then es else []) s"
  by (simp add: emit_if_def emit_def)

lemma emit_emit: "emit b (emit a s) = emit (a @ b) s"
  by (simp add: emit_def)

lemma triggers_ignored:
  "state s = CONVERSING \<Longrightarrow> aiInFlight s \<or> finalizing s \<Longrightarrow>
   run_events (map Trigger bs) s = emit (concat (map (\<lambda>b. if b then [HideSettings] else []) bs)) s"
proof (induction bs arbitrary: s)
  case Nil
  then show ?case by (simp add: run_events_def emit_def)
next
  case (Cons b bs)
  have "run_events (map Trigger (b # bs)) s = run_events (map Trigger bs) (emit (if b then [HideSettings] else []) s)"
    using Cons.prems by (simp add: run_events_def trigger_ignored emit_if_emit)
  also have "\<dots> = emit (concat (map (\<lambda>b. if b then [HideSettings] else []) bs)) (emit (if b then [HideSettings] else []) s)"
    using Cons.prems by (intro Cons.IH) simp_all
  finally show ?case by (simp add: emit_emit)
qed

lemma finalize_start:
  assumes "state s = RECORDING" "\<forall>k. contextReady s = Some k \<longrightarrow> k \<in> set (settled s)"
    and "transcribeService (env s)"
  shows "onTriggerDown b s =
     spawn (TFinalizeStop (roundNumber s))
       (emit [TranscribeStop]
         (emit_if (highlightService (env s)) [HighlightHide]
           (send Finalizing ((emit_if b [HideSettings] s)\<lparr>state := CONVERSING, finalizing := True\<rparr>))))"
  using assms
  by (simp add: onTriggerDown_def finalizeRound_def finalize_after_context_def await_stop_def
      Let_def split: option.splits)

lemma finalize_start_waiting:
  assumes "state s = RECORDING" "contextReady s = Some k" "k \<notin> set (settled s)"
  shows "onTriggerDown b s =
     spawn (TFinalizeCtx (roundNumber s) k)
       (send Finalizing ((emit_if b [HideSettings] s)\<lparr>state := CONVERSING, finalizing := True\<rparr>))"
  using assms by (simp add: onTriggerDown_def finalizeRound_def Let_def)

lemma converse_if [simp]:
  "filter is_converse (if b then [HideSettings] else []) = []"
  "filter is_converse (if b then [Send e] else []) = []"
  "filter is_converse (if b then [HighlightHide] else []) = []"
  "filter is_converse (if b then [PreviewHide] else []) = []"
  "filter is_converse (if b then [AIReset] else []) = []"
  by simp_all

lemma converse_autoCopy [simp]:
  "filter is_converse (trace (autoCopyIfClean c s)) = filter is_converse (trace s)"
  by (simp add: autoCopyIfClean_def Let_def)

lemma autoCopy_fields [simp]:
  "env (autoCopyIfClean c s) = env s" "state (autoCopyIfClean c s) = state s"
  "conversation (autoCopyIfClean c s) = conversation s"
  "currentRound (autoCopyIfClean c s) = currentRound s" "roundNumber (autoCopyIfClean c s) = roundNumber s"
  "contextReady (autoCopyIfClean c s) = contextReady s"
  "aiInFlight (autoCopyIfClean c s) = aiInFlight s" "finalizing (autoCopyIfClean c s) = finalizing s"
  "tasks (autoCopyIfClean c s) = tasks s"
  by (simp_all add: autoCopyIfClean_def Let_def)

lemma resume_last:
  "step (Resume (length ts) out) (s\<lparr>tasks := ts @ [t]\<rparr>) =
     (case resume_task t out (s\<lparr>tasks := ts\<rparr>) of Some s' \<Rightarrow> s' | None \<Rightarrow> s\<lparr>tasks := ts @ [t]\<rparr>)"
  by simp

lemma stop_resumed:
  assumes "roundNumber s = r" "trim (round_transcript (currentRound s)) \<noteq> []" "aiService (env s)"
  shows "finalize_after_stop r (stop_settled s) =
     spawn (TRespond (overlay (env s)) True)
       (emit [AIConverse (messages (conversation s) @ [\<lparr>msg_role = User, msg_content = round_transcript (currentRound s), msg_buttons = []\<rparr>])]
         ((send (ButtonThinking (round_transcript (currentRound s)))
            (push_message \<lparr>msg_role = User, msg_content = round_transcript (currentRound s), msg_buttons = []\<rparr>
              (emit [TranscribeOff] (s\<lparr>listeners := 0\<rparr>))))\<lparr>aiInFlight := True\<rparr>))"
  using assms by (simp add: finalize_after_stop_def stop_settled_def respondToUser_def Let_def)


lemma run_events_Cons: "run_events (e # es) s = run_events es (step e s)"
  by (simp add: run_events_def)

lemma run_events_append: "run_events (a @ b) s = run_events b (run_events a s)"
  by (simp add: run_events_def)

lemma run_events_Nil: "run_events [] s = s"
  by (simp add: run_events_def)

lemma resume_at_end:
  "tasks s = ts @ [t] \<Longrightarrow>
   step (Resume (length ts) out) s =
     (case resume_task t out (s\<lparr>tasks := ts\<rparr>) of Some s' \<Rightarrow> s' | None \<Rightarrow> s)"
  by simp

lemma respond_done:
  assumes "state s = CONVERSING"
  shows "state (respond_finally fin (respond_ok ov t u s)) = CONVERSING"
    and "\<not> aiInFlight (respond_finally fin (respond_ok ov t u s))"
    and "fin \<Longrightarrow> \<not> finalizing (respond_finally fin (respond_ok ov t u s))"
    and "roundNumber (respond_finally fin (respond_ok ov t u s)) = roundNumber s"
    and "tasks (respond_finally fin (respond_ok ov t u s)) = tasks s"
    and "ai_calls (respond_finally fin (respond_ok ov t u s)) = ai_calls s"
    and "messages (conversation (respond_finally fin (respond_ok ov t u s)))
       = messages (conversation s) @ [\<lparr>msg_role = Assistant, msg_content = content (parseButtons t),
            msg_buttons = buttons (parseButtons t)\<rparr>]"
  using assms
  by (auto simp: respond_finally_def respond_ok_def Let_def ai_calls_def push_message_def
      split: option.splits)

lemma save_if [simp]:
  "filter is_save (if b then [HideSettings] else []) = []"
  "filter is_save (if b then [Send e] else []) = []"
  "filter is_save (if b then [HighlightHide] else []) = []"
  "filter is_save (if b then [PreviewHide] else []) = []"
  "filter is_save (if b then [AIReset] else []) = []"
  by simp_all

lemma reset_facts:
  "state (reset s) = IDLE" "tasks (reset s) = tasks s"
  "filter is_save (trace (reset s)) = filter is_save (trace s)"
  "filter is_converse (trace (reset s)) = filter is_converse (trace s)"
  "messages (conversation (reset s)) = []" "\<not> aiInFlight (reset s)" "\<not> finalizing (reset s)"
  "roundNumber (reset s) = 0" "env (reset s) = env s"
  by (simp_all add: reset_def Let_def new_conversation_def)

lemma hideAndReset_facts:
  "state (hideAndReset s) = IDLE" "tasks (hideAndReset s) = tasks s"
  "filter is_save (trace (hideAndReset s)) = filter is_save (trace s)"
  "filter is_converse (trace (hideAndReset s)) = filter is_converse (trace s)"
  "messages (conversation (hideAndReset s)) = []"
  "\<not> aiInFlight (hideAndReset s)" "\<not> finalizing (hideAndReset s)"
  "roundNumber (hideAndReset s) = 0" "env (hideAndReset s) = env s"
  by (simp_all add: hideAndReset_def reset_facts)

lemma save_after_stop_facts:
  "state (save_after_stop s) = IDLE" "tasks (save_after_stop s) = tasks s"
  "filter is_converse (trace (save_after_stop s)) = filter is_converse (trace s)"
  "messages (conversation s) = [] \<Longrightarrow>
     filter is_save (trace (save_after_stop s)) = filter is_save (trace s)"
  by (simp_all add: save_after_stop_def Let_def hideAndReset_facts)

lemma saveAndReset_facts:
  "filter is_converse (trace (saveAndReset s)) = filter is_converse (trace s)"
  "messages (conversation s) = [] \<Longrightarrow>
     filter is_save (trace (saveAndReset s)) = filter is_save (trace s)"
  "transcribeService (env s) \<Longrightarrow> saveAndReset s = spawn TSaveStop (emit [TranscribeStop] s)"
  "\<not> transcribeService (env s) \<Longrightarrow> saveAndReset s = save_after_stop s"
  by (simp_all add: saveAndReset_def await_stop_def save_after_stop_facts)

lemma stop_settled_fields [simp]:
  "env (stop_settled s) = env s" "state (stop_settled s) = state s"
  "conversation (stop_settled s) = conversation s"
  "currentRound (stop_settled s) = currentRound s" "roundNumber (stop_settled s) = roundNumber s"
  "contextReady (stop_settled s) = contextReady s"
  "aiInFlight (stop_settled s) = aiInFlight s" "finalizing (stop_settled s) = finalizing s"
  "tasks (stop_settled s) = tasks s" "trace (stop_settled s) = trace s @ [TranscribeOff]"
  "listeners (stop_settled s) = 0"
  by (simp_all add: stop_settled_def)

lemma onCancel_saves: "filter is_save (trace (onCancel s)) = filter is_save (trace s)"
  by (simp add: onCancel_def await_stop_def cancel_after_stop_def)

lemma cancel_after_stop_saves: "filter is_save (trace (cancel_after_stop s)) = filter is_save (trace s)"
  by (simp add: cancel_after_stop_def)

lemma timer_fired_saves: "filter is_save (trace (timer_fired s)) = filter is_save (trace s)"
  by (simp add: timer_fired_def hideAndReset_facts)

lemma respondToUser_facts:
  assumes "aiService (env s)"
  shows "messages (conversation (respondToUser fin m s))
           = messages (conversation s) @ [\<lparr>msg_role = User, msg_content = m, msg_buttons = []\<rparr>]"
    and "ai_calls (respondToUser fin m s) = Suc (ai_calls s)"
    and "tasks (respondToUser fin m s) = tasks s @ [TRespond (overlay (env s)) fin]"
    and "history_saves (respondToUser fin m s) = history_saves s"
  using assms by (simp_all add: respondToUser_def Let_def ai_calls_def history_saves_def)

lemma save_count:
  "history_saves (save_after_stop s) = history_saves s
     + (if historyService (env s) \<and> messages (conversation s) \<noteq> [] then 1 else 0)"
  by (simp add: save_after_stop_def Let_def history_saves_def hideAndReset_facts)

lemma blank_transcript:
  "segments r = [] \<Longrightarrow> trim (currentPartial r) = [] \<Longrightarrow> trim (round_transcript r) = []"
  by (simp add: round_transcript_def Let_def trim_def trimStart_def trimEnd_def)

lemmas orch_defs = new_orch_def all_deps_def new_conversation_def new_round_def
  emit_def emit_if_def send_def spawn_def push_message_def reset_def hideAndReset_def
  await_stop_def stop_settled_def history_of_def save_after_stop_def saveAndReset_def
  onClose_def cancel_after_stop_def onCancel_def timer_fired_def
  respond_ok_def respond_failed_def respond_finally_def respondToUser_def onButtonClick_def
  round_transcript_def finalize_after_stop_def finalize_after_context_def finalizeRound_def
  capture_end_def flash_settled_def capture_settled_def capture_after_window_def
  window_settled_def captureContext_def onServiceError_def sendTranscriptToOverlay_def
  on_partial_def on_final_def startTranscription_def start_settled_def onTriggerDown_def
  on_chunk_def run_events_def ai_calls_def history_saves_def List.map_filter_def

section \<open>Triggers during a round\<close>

text \<open>
  C1. A trigger received while the state is CONVERSING and the AI-in-flight flag or the
  finalizing flag is set changes nothing: the state, the round number, the messages and
  the suspended handlers stay as they are and no AI call is made (nothing happens but
  the hiding of an open settings window). Hence the rapid triggers of a round: a
  trigger while recording starts the one finalize of the round, which awaits
  \<open>stopTranscription\<close> (or, in the last part, the context capture); however many
  triggers arrive before the stop settles and before the AI answers, the round makes
  exactly one call of \<open>aiService.converse\<close>, appends one user and one assistant
  message, and ends CONVERSING with both flags cleared and no handler left suspended.
\<close>

theorem rapid_triggers_one_ai_call:
  assumes "state s = RECORDING"
    and "\<forall>k. contextReady s = Some k \<longrightarrow> k \<in> set (settled s)"
    and "transcribeService (env s)" and "aiService (env s)"
    and "trim (round_transcript (currentRound s)) \<noteq> []"
  shows "(state c = CONVERSING \<and> (aiInFlight c \<or> finalizing c) \<longrightarrow>
            onTriggerDown b c = emit_if b [HideSettings] c
          \<and> state (onTriggerDown b c) = state c
          \<and> roundNumber (onTriggerDown b c) = roundNumber c
          \<and> messages (conversation (onTriggerDown b c)) = messages (conversation c)
          \<and> tasks (onTriggerDown b c) = tasks c
          \<and> ai_calls (onTriggerDown b c) = ai_calls c)
       \<and> (let i = length (tasks s);
               s1 = run_events (Trigger b # map Trigger bs1) s;
               s2 = run_events (Resume i Settled # map Trigger bs2) s1;
               s3 = run_events [Resume i (Reply aiText usage)] s2
           in tasks s1 = tasks s @ [TFinalizeStop (roundNumber s)]
            \<and> ai_calls s1 = ai_calls s
            \<and> tasks s2 = tasks s @ [TRespond (overlay (env s)) True]
            \<and> ai_calls s2 = Suc (ai_calls s)
            \<and> tasks s3 = tasks s
            \<and> ai_calls s3 = Suc (ai_calls s)
            \<and> state s3 = CONVERSING \<and> \<not> aiInFlight s3 \<and> \<not> finalizing s3
            \<and> roundNumber s3 = roundNumber s
            \<and> messages (conversation s3) = messages (conversation s)
                 @ [\<lparr>msg_role = User, msg_content = round_transcript (currentRound s),
                      msg_buttons = []\<rparr>,
                    \<lparr>msg_role = Assistant, msg_content = content (parseButtons aiText),
                      msg_buttons = buttons (parseButtons aiText)\<rparr>])
       \<and> (state w = RECORDING \<and> contextReady w = Some k \<and> k \<notin> set (settled w) \<longrightarrow>
            (let w1 = run_events (Trigger b # map Trigger bs1) w
             in tasks w1 = tasks w @ [TFinalizeCtx (roundNumber w) k]
              \<and> ai_calls w1 = ai_calls w \<and> state w1 = CONVERSING \<and> finalizing w1))"
proof (intro conjI)
  show "state c = CONVERSING \<and> (aiInFlight c \<or> finalizing c) \<longrightarrow>
            onTriggerDown b c = emit_if b [HideSettings] c
          \<and> state (onTriggerDown b c) = state c
          \<and> roundNumber (onTriggerDown b c) = roundNumber c
          \<and> messages (conversation (onTriggerDown b c)) = messages (conversation c)
          \<and> tasks (onTriggerDown b c) = tasks c
          \<and> ai_calls (onTriggerDown b c) = ai_calls c"
    by (auto simp: trigger_ignored ai_calls_def)
next
  let ?r = "roundNumber s"
  let ?u = "\<lparr>msg_role = User, msg_content = round_transcript (currentRound s), msg_buttons = []\<rparr>"
  define i where "i = length (tasks s)"
  define a1 where "a1 = onTriggerDown b s"
  define s1 where "s1 = run_events (map Trigger bs1) a1"
  define a2 where "a2 = step (Resume i Settled) s1"
  define s2 where "s2 = run_events (map Trigger bs2) a2"
  define s3 where "s3 = step (Resume i (Reply aiText usage)) s2"
  have a1: "state a1 = CONVERSING" "finalizing a1" "roundNumber a1 = ?r"
    "tasks a1 = tasks s @ [TFinalizeStop ?r]" "ai_calls a1 = ai_calls s"
    "currentRound a1 = currentRound s" "env a1 = env s"
    "messages (conversation a1) = messages (conversation s)"
    unfolding a1_def finalize_start [OF assms(1,2,3)] by (simp_all add: ai_calls_def)
  have s1_eq: "s1 = emit (concat (map (\<lambda>b. if b then [HideSettings] else []) bs1)) a1"
    unfolding s1_def using a1 by (intro triggers_ignored) simp_all
  have s1: "state s1 = CONVERSING" "finalizing s1" "roundNumber s1 = ?r"
    "tasks s1 = tasks s @ [TFinalizeStop ?r]" "ai_calls s1 = ai_calls s"
    "currentRound s1 = currentRound s" "env s1 = env s"
    "messages (conversation s1) = messages (conversation s)"
    unfolding s1_eq using a1 by (simp_all add: ai_calls_def)
  have a2_eq: "a2 = finalize_after_stop ?r (stop_settled (s1\<lparr>tasks := tasks s\<rparr>))"
    unfolding a2_def i_def using resume_at_end [OF s1(4), of Settled] by simp
  have a2: "state a2 = CONVERSING" "finalizing a2" "aiInFlight a2" "roundNumber a2 = ?r"
    "tasks a2 = tasks s @ [TRespond (overlay (env s)) True]" "ai_calls a2 = Suc (ai_calls s)"
    "env a2 = env s"
    "messages (conversation a2) = messages (conversation s) @ [?u]"
    unfolding a2_eq using s1 assms(4,5)
    by (simp_all add: stop_resumed ai_calls_def)
  have s2_eq: "s2 = emit (concat (map (\<lambda>b. if b then [HideSettings] else []) bs2)) a2"
    unfolding s2_def using a2 by (intro triggers_ignored) simp_all
  have s2: "state s2 = CONVERSING" "finalizing s2" "aiInFlight s2" "roundNumber s2 = ?r"
    "tasks s2 = tasks s @ [TRespond (overlay (env s)) True]" "ai_calls s2 = Suc (ai_calls s)"
    "env s2 = env s"
    "messages (conversation s2) = messages (conversation s) @ [?u]"
    unfolding s2_eq using a2 by (simp_all add: ai_calls_def)
  have s3_eq: "s3 = respond_finally True (respond_ok (overlay (env s)) aiText usage (s2\<lparr>tasks := tasks s\<rparr>))"
    unfolding s3_def i_def using resume_at_end [OF s2(5), of "Reply aiText usage"] by simp
  have c: "state (s2\<lparr>tasks := tasks s\<rparr>) = CONVERSING" using s2 by simp
  have s3: "state s3 = CONVERSING" "\<not> aiInFlight s3" "\<not> finalizing s3" "roundNumber s3 = ?r"
    "tasks s3 = tasks s" "ai_calls s3 = Suc (ai_calls s)"
    "messages (conversation s3) = messages (conversation s) @ [?u,
        \<lparr>msg_role = Assistant, msg_content = content (parseButtons aiText),
          msg_buttons = buttons (parseButtons aiText)\<rparr>]"
    unfolding s3_eq using respond_done [OF c, of True "overlay (env s)" aiText usage] s2
    by (simp_all add: ai_calls_def)
  have r1: "run_events (Trigger b # map Trigger bs1) s = s1"
    by (simp add: run_events_Cons s1_def a1_def)
  have r2: "run_events (Resume i Settled # map Trigger bs2) s1 = s2"
    by (simp add: run_events_Cons s2_def a2_def)
  have r3: "run_events [Resume i (Reply aiText usage)] s2 = s3"
    by (simp add: run_events_Cons run_events_Nil s3_def)
  show "let i = length (tasks s);
               s1 = run_events (Trigger b # map Trigger bs1) s;
               s2 = run_events (Resume i Settled # map Trigger bs2) s1;
               s3 = run_events [Resume i (Reply aiText usage)] s2
           in tasks s1 = tasks s @ [TFinalizeStop (roundNumber s)]
            \<and> ai_calls s1 = ai_calls s
            \<and> tasks s2 = tasks s @ [TRespond (overlay (env s)) True]
            \<and> ai_calls s2 = Suc (ai_calls s)
            \<and> tasks s3 = tasks s
            \<and> ai_calls s3 = Suc (ai_calls s)
            \<and> state s3 = CONVERSING \<and> \<not> aiInFlight s3 \<and> \<not> finalizing s3
            \<and> roundNumber s3 = roundNumber s
            \<and> messages (conversation s3) = messages (conversation s)
                 @ [\<lparr>msg_role = User, msg_content = round_transcript (currentRound s),
                      msg_buttons = []\<rparr>,
                    \<lparr>msg_role = Assistant, msg_content = content (parseButtons aiText),
                      msg_buttons = buttons (parseButtons aiText)\<rparr>]"
    unfolding Let_def i_def [symmetric] r1 r2 r3
    using s1(4,5) s2(5,6) s3 by simp
  show "state w = RECORDING \<and> contextReady w = Some k \<and> k \<notin> set (settled w) \<longrightarrow>
            (let w1 = run_events (Trigger b # map Trigger bs1) w
             in tasks w1 = tasks w @ [TFinalizeCtx (roundNumber w) k]
              \<and> ai_calls w1 = ai_calls w \<and> state w1 = CONVERSING \<and> finalizing w1)"
  proof (intro impI)
    assume h: "state w = RECORDING \<and> contextReady w = Some k \<and> k \<notin> set (settled w)"
    define v where "v = onTriggerDown b w"
    have v: "state v = CONVERSING" "finalizing v"
      "tasks v = tasks w @ [TFinalizeCtx (roundNumber w) k]" "ai_calls v = ai_calls w"
      unfolding v_def using h by (simp_all add: finalize_start_waiting ai_calls_def)
    have "run_events (map Trigger bs1) v
        = emit (concat (map (\<lambda>b. if b then [HideSettings] else []) bs1)) v"
      using v by (intro triggers_ignored) simp_all
    then show "let w1 = run_events (Trigger b # map Trigger bs1) w
             in tasks w1 = tasks w @ [TFinalizeCtx (roundNumber w) k]
              \<and> ai_calls w1 = ai_calls w \<and> state w1 = CONVERSING \<and> finalizing w1"
      using v by (simp add: run_events_Cons v_def [symmetric] ai_calls_def)
  qed
qed

theorem rapid_triggers_one_ai_call_witness:
  "(let s = run_events [Trigger False, Resume 1 (WindowResult None), Resume 1 (ShotResult None),
                        FinalEv (js ''find files'')] (new_orch all_deps);
        c = onTriggerDown False s;
        s1 = run_events (Trigger False # map Trigger [True, False]) s;
        s2 = run_events (Resume 1 Settled # map Trigger [False]) s1;
        s3 = run_events [Resume 1 (Reply (js ''ok'') None)] s2
    in state s = RECORDING \<and> contextReady s = None
     \<and> state c = CONVERSING \<and> finalizing c \<and> onTriggerDown False c = c
     \<and> ai_calls s = 0 \<and> ai_calls s3 = 1 \<and> state s3 = CONVERSING
     \<and> map msg_content (messages (conversation s3)) = [js ''find files'', js ''ok''])"
proof -
  define s where "s = run_events [Trigger False, Resume 1 (WindowResult None),
    Resume 1 (ShotResult None), FinalEv (js ''find files'')] (new_orch all_deps)"
  define c where "c = onTriggerDown False s"
  have s: "state s = RECORDING" "contextReady s = None" "transcribeService (env s)"
    "aiService (env s)" "trim (round_transcript (currentRound s)) \<noteq> []"
    "tasks s = [TStart]" "ai_calls s = 0" "messages (conversation s) = []"
    "round_transcript (currentRound s) = js ''find files''"
    unfolding s_def by (simp_all add: orch_defs str_defs Let_def)
  have k: "\<forall>k. contextReady s = Some k \<longrightarrow> k \<in> set (settled s)"
    using s(2) by simp
  have c: "state c = CONVERSING" "finalizing c"
    unfolding c_def by (simp_all add: finalize_start [OF s(1) k s(3)])
  have p: "content (parseButtons (js ''ok'')) = js ''ok''"
    by (simp add: pb_defs re_defs str_defs match_defs Let_def)
  from rapid_triggers_one_ai_call [OF s(1) k s(3,4,5), where c = c and b = False
      and ?bs1.0 = "[True, False]" and ?bs2.0 = "[False]" and aiText = "js ''ok''"
      and usage = None and w = s and k = 0] c s p
  show ?thesis
    unfolding s_def [symmetric] c_def [symmetric] Let_def
    by (simp add: emit_if_def)
qed

section \<open>The round number as an epoch\<close>

text \<open>
  C2. \<open>finalizeRound\<close> records the round number before it awaits anything: the task
  it suspends as, whether it awaits the context capture or \<open>stopTranscription\<close>,
  carries the round number of that moment. When the awaited step settles and the round
  number of the orchestrator is no longer the recorded one, the rest of
  \<open>finalizeRound\<close> only clears the finalizing flag: no transcript is built, no message
  is appended, the AI client is not called, nothing is saved and no handler is
  suspended.
\<close>

theorem stale_finalize_aborts:
  assumes "roundNumber s \<noteq> myRound"
  shows "finalize_after_context myRound s = s\<lparr>finalizing := False\<rparr>
       \<and> finalize_after_stop myRound s = s\<lparr>finalizing := False\<rparr>
       \<and> (List.map_filter (waiter k) (tasks s) = [myRound] \<longrightarrow>
            capture_end k s =
              (emit [ShowOverlay] s)\<lparr>contextReady := None, settled := settled s @ [k],
                 tasks := filter (\<lambda>t. waiter k t = None) (tasks s), finalizing := False\<rparr>)
       \<and> (out = Settled \<or> out = Rejected m \<longrightarrow>
            resume_task (TFinalizeStop myRound) out s
              = Some ((stop_settled s)\<lparr>finalizing := False\<rparr>)
            \<and> messages (conversation (finalize_after_stop myRound (stop_settled s)))
                = messages (conversation s)
            \<and> ai_calls (finalize_after_stop myRound (stop_settled s)) = ai_calls s
            \<and> history_saves (finalize_after_stop myRound (stop_settled s)) = history_saves s
            \<and> tasks (finalize_after_stop myRound (stop_settled s)) = tasks s)
       \<and> (contextReady a = Some k \<and> k \<notin> set (settled a) \<longrightarrow>
            tasks (finalizeRound a) = tasks a @ [TFinalizeCtx (roundNumber a) k])
       \<and> (transcribeService (env a) \<and> (\<forall>j. contextReady a = Some j \<longrightarrow> j \<in> set (settled a)) \<longrightarrow>
            tasks (finalizeRound a) = tasks a @ [TFinalizeStop (roundNumber a)])"
proof (intro conjI impI)
  show c: "finalize_after_context myRound s = s\<lparr>finalizing := False\<rparr>"
    using assms by (simp add: finalize_after_context_def)
  show "finalize_after_stop myRound s = s\<lparr>finalizing := False\<rparr>"
    using assms by (simp add: finalize_after_stop_def)
  have st: "finalize_after_stop myRound (stop_settled s) = (stop_settled s)\<lparr>finalizing := False\<rparr>"
    using assms by (simp add: finalize_after_stop_def)
  show "resume_task (TFinalizeStop myRound) out s = Some ((stop_settled s)\<lparr>finalizing := False\<rparr>)"
    if "out = Settled \<or> out = Rejected m"
    using that st by auto
  show "messages (conversation (finalize_after_stop myRound (stop_settled s))) = messages (conversation s)"
    by (simp add: st)
  show "ai_calls (finalize_after_stop myRound (stop_settled s)) = ai_calls s"
    by (simp add: st ai_calls_def)
  show "history_saves (finalize_after_stop myRound (stop_settled s)) = history_saves s"
    by (simp add: st history_saves_def)
  show "tasks (finalize_after_stop myRound (stop_settled s)) = tasks s"
    by (simp add: st)
  show "capture_end k s =
              (emit [ShowOverlay] s)\<lparr>contextReady := None, settled := settled s @ [k],
                 tasks := filter (\<lambda>t. waiter k t = None) (tasks s), finalizing := False\<rparr>"
    if "List.map_filter (waiter k) (tasks s) = [myRound]"
    using that assms by (simp add: capture_end_def Let_def finalize_after_context_def)
  show "tasks (finalizeRound a) = tasks a @ [TFinalizeCtx (roundNumber a) k]"
    if "contextReady a = Some k \<and> k \<notin> set (settled a)"
    using that by (simp add: finalizeRound_def Let_def)
  show "tasks (finalizeRound a) = tasks a @ [TFinalizeStop (roundNumber a)]"
    if "transcribeService (env a) \<and> (\<forall>j. contextReady a = Some j \<longrightarrow> j \<in> set (settled a))"
    using that
    by (auto simp: finalizeRound_def Let_def finalize_after_context_def await_stop_def
        split: option.splits)
qed

theorem stale_finalize_aborts_witness:
  "(let s = (new_orch all_deps)\<lparr>state := CONVERSING, finalizing := True, roundNumber := 1,
               tasks := [TFinalizeCtx 0 0]\<rparr>;
        a = (new_orch all_deps)\<lparr>contextReady := Some 0, state := RECORDING\<rparr>;
        b = (new_orch all_deps)\<lparr>state := RECORDING\<rparr>
    in roundNumber s \<noteq> 0
     \<and> finalize_after_stop 0 s = s\<lparr>finalizing := False\<rparr>
     \<and> List.map_filter (waiter 0) (tasks s) = [0]
     \<and> tasks (capture_end 0 s) = [] \<and> \<not> finalizing (capture_end 0 s)
     \<and> ai_calls (capture_end 0 s) = 0 \<and> messages (conversation (capture_end 0 s)) = []
     \<and> resume_task (TFinalizeStop 0) Settled s = Some ((stop_settled s)\<lparr>finalizing := False\<rparr>)
     \<and> contextReady a = Some 0 \<and> 0 \<notin> set (settled a)
     \<and> tasks (finalizeRound a) = [TFinalizeCtx 0 0]
     \<and> transcribeService (env b) \<and> contextReady b = None
     \<and> tasks (finalizeRound b) = [TFinalizeStop 0])"
proof -
  define s where "s = (new_orch all_deps)\<lparr>state := CONVERSING, finalizing := True,
    roundNumber := 1, tasks := [TFinalizeCtx 0 0]\<rparr>"
  define a where "a = (new_orch all_deps)\<lparr>contextReady := Some 0, state := RECORDING\<rparr>"
  define b where "b = (new_orch all_deps)\<lparr>state := RECORDING\<rparr>"
  have s: "roundNumber s \<noteq> 0" "List.map_filter (waiter 0) (tasks s) = [0]"
    "tasks s = [TFinalizeCtx 0 0]" "trace s = []" "messages (conversation s) = []"
    unfolding s_def by (simp_all add: orch_defs)
  have a: "contextReady a = Some 0 \<and> 0 \<notin> set (settled a)" "tasks a = []"
    "roundNumber a = 0"
    unfolding a_def by (simp_all add: orch_defs)
  have b: "transcribeService (env b) \<and> (\<forall>j. contextReady b = Some j \<longrightarrow> j \<in> set (settled b))"
    "contextReady b = None" "tasks b = []" "transcribeService (env b)" "roundNumber b = 0"
    unfolding b_def by (simp_all add: orch_defs)
  from stale_finalize_aborts [OF s(1), where k = 0 and out = Settled and a = a]
    stale_finalize_aborts [OF s(1), where k = 0 and out = Settled and a = b] s a b
  show ?thesis
    unfolding s_def [symmetric] a_def [symmetric] b_def [symmetric] Let_def
    by (simp add: ai_calls_def)
qed

section \<open>Cancelling\<close>

text \<open>
  A cancel or a close received in the state IDLE returns at once: the orchestrator,
  with its trace of what it did to its collaborators, is unchanged. A cancel received
  in another state, with a transcription service and an overlay, sets the state to
  CANCELLED and calls \<open>stop\<close> on the transcription; when the stop has settled it
  removes the listeners, sends the cancel event to the overlay and sets a timer of
  300 ms; when the timer fires the state is reset to IDLE. When these three steps follow
  each other with no other handler in between, nothing is saved; and none of the three
  steps, in any state, calls \<open>historyService.save\<close>.
\<close>

lemma cancel_uninterrupted:
  "(state s = IDLE \<longrightarrow> onCancel s = s \<and> onClose s = s)
   \<and> (state s \<noteq> IDLE \<and> transcribeService (env s) \<and> overlay (env s) \<longrightarrow>
        (let i = length (tasks s);
             s1 = step CancelKey s;
             s2 = step (Resume i Settled) s1;
             s3 = step (Resume i Settled) s2
         in state s1 = CANCELLED
          \<and> trace s1 = trace s @ (if screenshotPreview (env s) then [PreviewHide] else [])
                          @ [TranscribeStop]
          \<and> tasks s1 = tasks s @ [TCancelStop]
          \<and> state s2 = CANCELLED
          \<and> trace s2 = trace s1 @ [TranscribeOff, Send CancelEvent, SetTimeout 300]
          \<and> tasks s2 = tasks s @ [TTimer]
          \<and> state s3 = IDLE \<and> tasks s3 = tasks s
          \<and> history_saves s3 = history_saves s))
   \<and> history_saves (onCancel s) = history_saves s
   \<and> history_saves (cancel_after_stop s) = history_saves s
   \<and> history_saves (timer_fired s) = history_saves s"
proof (intro conjI impI)
  assume "state s = IDLE"
  then show "onCancel s = s" "onClose s = s"
    by (simp_all add: onCancel_def onClose_def)
next
  show "history_saves (onCancel s) = history_saves s"
    by (simp add: history_saves_def onCancel_saves)
  show "history_saves (cancel_after_stop s) = history_saves s"
    by (simp add: history_saves_def cancel_after_stop_saves)
  show "history_saves (timer_fired s) = history_saves s"
    by (simp add: history_saves_def timer_fired_saves)
next
  assume h: "state s \<noteq> IDLE \<and> transcribeService (env s) \<and> overlay (env s)"
  define s1 where "s1 = step CancelKey s"
  define s2 where "s2 = step (Resume (length (tasks s)) Settled) s1"
  define s3 where "s3 = step (Resume (length (tasks s)) Settled) s2"
  have s1: "state s1 = CANCELLED"
    "trace s1 = trace s @ (if screenshotPreview (env s) then [PreviewHide] else []) @ [TranscribeStop]"
    "tasks s1 = tasks s @ [TCancelStop]" "env s1 = env s"
    unfolding s1_def using h by (simp_all add: onCancel_def await_stop_def)
  have s2_eq: "s2 = cancel_after_stop (stop_settled (s1\<lparr>tasks := tasks s\<rparr>))"
    unfolding s2_def using resume_at_end [OF s1(3), of Settled] by simp
  have s2: "state s2 = CANCELLED"
    "trace s2 = trace s1 @ [TranscribeOff, Send CancelEvent, SetTimeout 300]"
    "tasks s2 = tasks s @ [TTimer]"
    unfolding s2_eq using s1 h by (simp_all add: cancel_after_stop_def)
  have s3_eq: "s3 = timer_fired (s2\<lparr>tasks := tasks s\<rparr>)"
    unfolding s3_def using resume_at_end [OF s2(3), of Settled] by simp
  have s3: "state s3 = IDLE" "tasks s3 = tasks s" "history_saves s3 = history_saves s"
    unfolding s3_eq using s1 s2
    by (simp_all add: timer_fired_def hideAndReset_facts history_saves_def)
  show "let i = length (tasks s);
             s1 = step CancelKey s;
             s2 = step (Resume i Settled) s1;
             s3 = step (Resume i Settled) s2
         in state s1 = CANCELLED
          \<and> trace s1 = trace s @ (if screenshotPreview (env s) then [PreviewHide] else [])
                          @ [TranscribeStop]
          \<and> tasks s1 = tasks s @ [TCancelStop]
          \<and> state s2 = CANCELLED
          \<and> trace s2 = trace s1 @ [TranscribeOff, Send CancelEvent, SetTimeout 300]
          \<and> tasks s2 = tasks s @ [TTimer]
          \<and> state s3 = IDLE \<and> tasks s3 = tasks s
          \<and> history_saves s3 = history_saves s"
    unfolding Let_def s1_def [symmetric] s2_def [symmetric] s3_def [symmetric]
    using s1 s2 s3 by simp
qed

text \<open>
  C8. A cancelled session can be written to the history store. In the session
  \<open>one_round\<close> (the user said "hello", the AI answered "ok", the state is CONVERSING,
  nothing is saved yet) the cancel key sets the state to CANCELLED. A close action
  that arrives before the timer of the cancel has fired is not ignored: \<open>onClose\<close>
  returns early only in the state IDLE, so it calls \<open>saveAndReset\<close>, and when the
  stop it awaits has settled \<open>historyService.save\<close> is called with the cancelled
  conversation. The same happens with the button "Dismiss" pressed after the cancel
  event was sent, and with a round that was being finalized when the cancel key was
  pressed and whose transcript is empty: \<open>finalizeRound\<close> goes on to
  \<open>saveAndReset\<close> in the state CANCELLED. Without such a second handler the cancel
  saves nothing.
\<close>

theorem cancelled_session_saved:
  "state one_round = CONVERSING
   \<and> messages (conversation one_round)
       = [\<lparr>msg_role = User, msg_content = js ''hello'', msg_buttons = []\<rparr>,
          \<lparr>msg_role = Assistant, msg_content = js ''ok'', msg_buttons = []\<rparr>]
   \<and> history_saves one_round = 0
   \<and> state (run_events [CancelKey] one_round) = CANCELLED
   \<and> state (run_events [CancelKey, CloseAction] one_round) = CANCELLED
   \<and> filter is_save
         (trace (run_events [CancelKey, CloseAction, Resume 1 Settled] one_round))
       = [HistorySave
            \<lparr>h_id = 0, h_timestamp = 0, h_transcript = js ''hello'', h_aiText = js ''ok'',
             h_windowTitle = js ''unknown'', h_durationMs = 0, h_rounds = 1,
             h_messages = [(User, js ''hello''), (Assistant, js ''ok'')],
             h_screenshot = None, h_tokenUsage = None\<rparr>]
   \<and> history_saves
         (run_events [CancelKey, Resume 0 Settled, ButtonClick (js ''Dismiss''),
                      Resume 1 Settled] one_round) = 1
   \<and> state
         (run_events [Trigger False, Resume 0 Settled, Trigger False, CancelKey,
                      Resume 0 Settled] one_round) = CANCELLED
   \<and> history_saves
         (run_events [Trigger False, Resume 0 Settled, Trigger False, CancelKey,
                      Resume 0 Settled, Resume 1 Settled] one_round) = 1
   \<and> history_saves (run_events [CancelKey, Resume 0 Settled, Resume 0 Settled] one_round) = 0"
  by (intro conjI)
    (simp_all add: one_round_def orch_defs autoCopyIfClean_def fenced_code_def fenced_def
       pb_defs re_defs str_defs match_defs Let_def)

section \<open>The transcript of a round\<close>

text \<open>
  C3. The transcript of a round is the texts of its finalized segments, in order, joined
  by single spaces: the segments "find", "files", "bigger", "than", "a", "gig" give
  "find files bigger than a gig", and so does every round whose joined text is not
  blank. With no segment and a partial transcript that is not blank, the transcript is
  the trimmed partial ("find files big"). A transcript that is not blank is appended
  as a user message and the AI client is called once. With no segment and no partial,
  \<open>finalizeRound\<close> makes no AI call and goes to \<open>saveAndReset\<close>, which stops the
  transcription and resets the session to IDLE; \<open>saveAndReset\<close> calls
  \<open>historyService.save\<close> exactly when there is a history service and at least one
  message, so a session without messages is never written.
\<close>

theorem round_transcript_construction:
  "(map seg_text (segments r)
      = [js ''find'', js ''files'', js ''bigger'', js ''than'', js ''a'', js ''gig''] \<longrightarrow>
      round_transcript r = js ''find files bigger than a gig'')
   \<and> (trim (join (js '' '') (map seg_text (segments r))) \<noteq> [] \<longrightarrow>
        round_transcript r = join (js '' '') (map seg_text (segments r)))
   \<and> (segments r = [] \<and> trim (currentPartial r) \<noteq> [] \<longrightarrow>
        round_transcript r = trim (currentPartial r))
   \<and> (segments r = [] \<and> currentPartial r = js ''find files big'' \<longrightarrow>
        round_transcript r = js ''find files big'')
   \<and> (roundNumber s = n \<and> aiService (env s)
        \<and> trim (round_transcript (currentRound s)) \<noteq> [] \<longrightarrow>
        messages (conversation (finalize_after_stop n s))
          = messages (conversation s)
            @ [\<lparr>msg_role = User, msg_content = round_transcript (currentRound s),
                 msg_buttons = []\<rparr>]
        \<and> ai_calls (finalize_after_stop n s) = Suc (ai_calls s)
        \<and> history_saves (finalize_after_stop n s) = history_saves s)
   \<and> (roundNumber s = n \<and> segments (currentRound s) = []
        \<and> trim (currentPartial (currentRound s)) = [] \<longrightarrow>
        finalize_after_stop n s = (saveAndReset s)\<lparr>finalizing := False\<rparr>
        \<and> ai_calls (finalize_after_stop n s) = ai_calls s
        \<and> (transcribeService (env s) \<longrightarrow>
              tasks (finalize_after_stop n s) = tasks s @ [TSaveStop]
              \<and> messages (conversation (finalize_after_stop n s)) = messages (conversation s))
        \<and> (\<not> transcribeService (env s) \<longrightarrow> state (finalize_after_stop n s) = IDLE))
   \<and> state (save_after_stop s) = IDLE
   \<and> history_saves (save_after_stop s) = history_saves s
        + (if historyService (env s) \<and> messages (conversation s) \<noteq> [] then 1 else 0)
   \<and> (messages (conversation s) = [] \<longrightarrow>
        history_saves (save_after_stop s) = history_saves s
        \<and> history_saves (saveAndReset s) = history_saves s)"
proof (intro conjI impI)
  show "round_transcript r = js ''find files bigger than a gig''"
    if "map seg_text (segments r)
      = [js ''find'', js ''files'', js ''bigger'', js ''than'', js ''a'', js ''gig'']"
    using that by (simp add: round_transcript_def Let_def str_defs)
  show "round_transcript r = join (js '' '') (map seg_text (segments r))"
    if "trim (join (js '' '') (map seg_text (segments r))) \<noteq> []"
    using that by (simp add: round_transcript_def Let_def)
  show "round_transcript r = trim (currentPartial r)"
    if "segments r = [] \<and> trim (currentPartial r) \<noteq> []"
    using that by (simp add: round_transcript_def Let_def trim_def trimStart_def trimEnd_def)
  show "round_transcript r = js ''find files big''"
    if "segments r = [] \<and> currentPartial r = js ''find files big''"
    using that by (simp add: round_transcript_def Let_def str_defs)
next
  assume h: "roundNumber s = n \<and> aiService (env s)
        \<and> trim (round_transcript (currentRound s)) \<noteq> []"
  then have e: "finalize_after_stop n s = respondToUser True (round_transcript (currentRound s)) s"
    by (simp add: finalize_after_stop_def Let_def)
  from h have a: "aiService (env s)" by simp
  show "messages (conversation (finalize_after_stop n s))
          = messages (conversation s)
            @ [\<lparr>msg_role = User, msg_content = round_transcript (currentRound s),
                 msg_buttons = []\<rparr>]"
    unfolding e by (rule respondToUser_facts [OF a])
  show "ai_calls (finalize_after_stop n s) = Suc (ai_calls s)"
    unfolding e by (rule respondToUser_facts [OF a])
  show "history_saves (finalize_after_stop n s) = history_saves s"
    unfolding e by (rule respondToUser_facts [OF a])
next
  assume h: "roundNumber s = n \<and> segments (currentRound s) = []
        \<and> trim (currentPartial (currentRound s)) = []"
  then have b: "trim (round_transcript (currentRound s)) = []"
    by (simp add: blank_transcript)
  with h show e: "finalize_after_stop n s = (saveAndReset s)\<lparr>finalizing := False\<rparr>"
    by (simp add: finalize_after_stop_def Let_def)
  show "ai_calls (finalize_after_stop n s) = ai_calls s"
    unfolding e by (simp add: ai_calls_def saveAndReset_facts)
  show "tasks (finalize_after_stop n s) = tasks s @ [TSaveStop]" if "transcribeService (env s)"
    unfolding e using that by (simp add: saveAndReset_facts)
  show "messages (conversation (finalize_after_stop n s)) = messages (conversation s)"
    if "transcribeService (env s)"
    unfolding e using that by (simp add: saveAndReset_facts)
  show "state (finalize_after_stop n s) = IDLE" if "\<not> transcribeService (env s)"
    unfolding e using that by (simp add: saveAndReset_facts save_after_stop_facts)
next
  show "state (save_after_stop s) = IDLE"
    by (rule save_after_stop_facts)
  show "history_saves (save_after_stop s) = history_saves s
        + (if historyService (env s) \<and> messages (conversation s) \<noteq> [] then 1 else 0)"
    by (rule save_count)
  show "history_saves (save_after_stop s) = history_saves s" if "messages (conversation s) = []"
    using that by (simp add: save_count)
  show "history_saves (saveAndReset s) = history_saves s" if "messages (conversation s) = []"
    using that by (simp add: history_saves_def saveAndReset_facts)
qed

theorem round_transcript_construction_witness:
  "(let heard = run_events [Trigger False, Resume 1 (WindowResult None),
                   Resume 1 (ShotResult None), FinalEv (js ''find''), FinalEv (js ''files''),
                   FinalEv (js ''bigger''), FinalEv (js ''than''), FinalEv (js ''a''),
                   FinalEv (js ''gig'')] (new_orch all_deps);
        half = run_events [Trigger False, PartialEv (js ''find files big'')] (new_orch all_deps);
        silent = run_events [Trigger False] (new_orch all_deps)
    in map seg_text (segments (currentRound heard))
         = [js ''find'', js ''files'', js ''bigger'', js ''than'', js ''a'', js ''gig'']
     \<and> round_transcript (currentRound heard) = js ''find files bigger than a gig''
     \<and> ai_calls (finalize_after_stop 0 heard) = 1
     \<and> map msg_content (messages (conversation (finalize_after_stop 0 heard)))
         = [js ''find files bigger than a gig'']
     \<and> segments (currentRound half) = []
     \<and> round_transcript (currentRound half) = js ''find files big''
     \<and> segments (currentRound silent) = [] \<and> currentPartial (currentRound silent) = []
     \<and> ai_calls (finalize_after_stop 0 silent) = 0
     \<and> tasks (finalize_after_stop 0 silent) = tasks silent @ [TSaveStop]
     \<and> messages (conversation silent) = []
     \<and> history_saves (save_after_stop silent) = 0
     \<and> state (save_after_stop silent) = IDLE)"
proof -
  define heard where "heard = run_events [Trigger False, Resume 1 (WindowResult None),
                   Resume 1 (ShotResult None), FinalEv (js ''find''), FinalEv (js ''files''),
                   FinalEv (js ''bigger''), FinalEv (js ''than''), FinalEv (js ''a''),
                   FinalEv (js ''gig'')] (new_orch all_deps)"
  define half where
    "half = run_events [Trigger False, PartialEv (js ''find files big'')] (new_orch all_deps)"
  define silent where "silent = run_events [Trigger False] (new_orch all_deps)"
  have h: "map seg_text (segments (currentRound heard))
         = [js ''find'', js ''files'', js ''bigger'', js ''than'', js ''a'', js ''gig'']"
    "roundNumber heard = 0" "aiService (env heard)" "ai_calls heard = 0"
    "messages (conversation heard) = []"
    "round_transcript (currentRound heard) = js ''find files bigger than a gig''"
    "trim (round_transcript (currentRound heard)) \<noteq> []"
    unfolding heard_def by (simp_all add: orch_defs str_defs Let_def)
  have p: "segments (currentRound half) = []" "currentPartial (currentRound half) = js ''find files big''"
    "round_transcript (currentRound half) = js ''find files big''"
    unfolding half_def by (simp_all add: orch_defs str_defs Let_def)
  have e: "segments (currentRound silent) = []" "currentPartial (currentRound silent) = []"
    "roundNumber silent = 0" "transcribeService (env silent)" "ai_calls silent = 0"
    "messages (conversation silent) = []" "history_saves silent = 0"
    "trim (currentPartial (currentRound silent)) = []"
    unfolding silent_def by (simp_all add: orch_defs str_defs Let_def)
  have t: "trim [] = ([]::jsstring)" "trim (js ''find files bigger than a gig'') \<noteq> []"
    by (simp_all add: str_defs)
  from round_transcript_construction [where r = "currentRound heard" and s = heard and n = 0]
    round_transcript_construction [where r = "currentRound half" and s = silent and n = 0]
    h p e t
  show ?thesis
    unfolding heard_def [symmetric] half_def [symmetric] silent_def [symmetric] Let_def
    by (simp add: saveAndReset_facts ai_calls_def)
qed

end
